theory Spec2Isabelle
  imports Complex_Main "HOL-Library.Multiset"
begin

text \<open>
  A model of \<open>src/plugin.js\<close>, the quality selector plugin for video.js: the derivation
  and formatting of the identifier of a quality level (\<open>getIdentifierFromLevel\<close>), the
  rebuilding of the menu list when a level is added (\<open>onAddQualityLevel\<close>), the selection of
  a quality (\<open>setQuality\<close>) and the handling of the options (the constructor and the module's
  \<open>defaults\<close>), followed by the properties proved of them.
\<close>

section \<open>JavaScript values\<close>

text \<open>
  The plugin is JavaScript, so the values it handles are dynamically typed. The model keeps
  the primitive values. A number is a double in the program; here a finite number is the
  exact rational it denotes (so a quotient is not rounded) and \<open>NaN\<close> is kept apart.
  Infinities and the negative zero are not modelled.
\<close>

datatype jsnum = Fin rat | NaN

datatype jsval = Undefined | Null | Bool bool | Num jsnum | Str string

datatype error = TypeError

text \<open>
  Two conversions are not defined here and are taken as parameters: the number that a string
  converts to (it follows the grammar of numeric literals), and the decimal text of a number
  that is not an integer of magnitude at most \<open>2^53\<close> (it is the shortest text that reads
  back as the same double, so it depends on the binary representation of the number). The properties below hold for every choice of them.
\<close>

record engine =
  StringToNumber :: "string \<Rightarrow> jsnum"
  NumberToString :: "rat \<Rightarrow> string"

fun truthy :: "jsval \<Rightarrow> bool" where
  "truthy Undefined = False"
| "truthy Null = False"
| "truthy (Bool b) = b"
| "truthy (Num NaN) = False"
| "truthy (Num (Fin r)) = (r \<noteq> 0)"
| "truthy (Str s) = (s \<noteq> [])"

fun typeof_prim :: "jsval \<Rightarrow> string" where
  "typeof_prim Undefined = ''undefined''"
| "typeof_prim Null = ''object''"
| "typeof_prim (Bool b) = ''boolean''"
| "typeof_prim (Num n) = ''number''"
| "typeof_prim (Str s) = ''string''"

text \<open>Strict equality \<open>===\<close> on primitives: same type, same value, and \<open>NaN\<close> equals nothing.\<close>

definition strict_eq :: "jsval \<Rightarrow> jsval \<Rightarrow> bool" where
  "strict_eq a b = (a = b \<and> a \<noteq> Num NaN)"

fun to_number :: "engine \<Rightarrow> jsval \<Rightarrow> jsnum" where
  "to_number E Undefined = NaN"
| "to_number E Null = Fin 0"
| "to_number E (Bool b) = (if b then Fin 1 else Fin 0)"
| "to_number E (Num n) = n"
| "to_number E (Str s) = StringToNumber E s"

definition digit_char :: "nat \<Rightarrow> char" where
  "digit_char d = ''0123456789'' ! d"

function nat_to_string :: "nat \<Rightarrow> string" where
  "nat_to_string n =
     (if n < 10 then [digit_char n] else nat_to_string (n div 10) @ [digit_char (n mod 10)])"
  by pat_completeness auto
termination
  by (relation "measure (\<lambda>n. n)") auto

declare nat_to_string.simps [simp del]

definition int_to_string :: "int \<Rightarrow> string" where
  "int_to_string i = (if i < 0 then CHR ''-'' # nat_to_string (nat (- i)) else nat_to_string (nat i))"

definition number_to_string :: "engine \<Rightarrow> jsnum \<Rightarrow> string" where
  "number_to_string E n =
     (case n of
        NaN \<Rightarrow> ''NaN''
      | Fin r \<Rightarrow>
          if of_int \<lfloor>r\<rfloor> = r \<and> \<bar>r\<bar> \<le> 2 ^ 53 then int_to_string \<lfloor>r\<rfloor> else NumberToString E r)"

fun to_string :: "engine \<Rightarrow> jsval \<Rightarrow> string" where
  "to_string E Undefined = ''undefined''"
| "to_string E Null = ''null''"
| "to_string E (Bool b) = (if b then ''true'' else ''false'')"
| "to_string E (Num n) = number_to_string E n"
| "to_string E (Str s) = s"

fun Math_floor :: "jsnum \<Rightarrow> jsnum" where
  "Math_floor NaN = NaN"
| "Math_floor (Fin r) = Fin (of_int \<lfloor>r\<rfloor>)"

fun num_lt :: "jsnum \<Rightarrow> jsnum \<Rightarrow> bool" where
  "num_lt (Fin a) (Fin b) = (a < b)"
| "num_lt _ _ = False"

fun num_add :: "jsnum \<Rightarrow> jsnum \<Rightarrow> jsnum" where
  "num_add (Fin a) (Fin b) = Fin (a + b)"
| "num_add _ _ = NaN"

text \<open>Division by a finite non-zero divisor (the plugin only divides by \<open>1e3\<close>).\<close>

fun num_div :: "jsnum \<Rightarrow> rat \<Rightarrow> jsnum" where
  "num_div (Fin a) d = Fin (a / d)"
| "num_div NaN d = NaN"

text \<open>Strings compare by their code units, position by position.\<close>

fun str_lt :: "string \<Rightarrow> string \<Rightarrow> bool" where
  "str_lt [] [] = False"
| "str_lt [] (y # ys) = True"
| "str_lt (x # xs) [] = False"
| "str_lt (x # xs) (y # ys) =
     (if (of_char x :: nat) < of_char y then True
      else if (of_char y :: nat) < of_char x then False
      else str_lt xs ys)"

text \<open>The relational operator \<open><\<close>: two strings compare as strings, anything else as numbers.\<close>

fun js_lt :: "engine \<Rightarrow> jsval \<Rightarrow> jsval \<Rightarrow> bool" where
  "js_lt E (Str a) (Str b) = str_lt a b"
| "js_lt E a b = num_lt (to_number E a) (to_number E b)"

definition js_gt :: "engine \<Rightarrow> jsval \<Rightarrow> jsval \<Rightarrow> bool" where
  "js_gt E a b = js_lt E b a"

text \<open>The operator \<open>+\<close>: concatenation as soon as one operand is a string, addition otherwise.\<close>

fun is_Str :: "jsval \<Rightarrow> bool" where
  "is_Str (Str s) = True"
| "is_Str _ = False"

definition js_plus :: "engine \<Rightarrow> jsval \<Rightarrow> jsval \<Rightarrow> jsval" where
  "js_plus E a b =
     (if is_Str a \<or> is_Str b then Str (to_string E a @ to_string E b)
      else Num (num_add (to_number E a) (to_number E b)))"

section \<open>Options and quality levels\<close>

text \<open>
  The module-level \<open>defaults\<close> object and the options object a caller passes. A caller may
  leave any option out, so its fields are optional.
\<close>

record options =
  positionIndex :: int
  identifyBy :: string

record user_options =
  given_positionIndex :: "int option"
  given_identifyBy :: "string option"

definition defaults :: options where
  "defaults = \<lparr>positionIndex = - 2, identifyBy = ''height''\<rparr>"

text \<open>\<open>Object.assign(target, source)\<close>: every property of the source overwrites the target's.\<close>

definition Object_assign :: "options \<Rightarrow> user_options \<Rightarrow> options" where
  "Object_assign target source =
     \<lparr>positionIndex = (case given_positionIndex source of Some i \<Rightarrow> i | None \<Rightarrow> positionIndex target),
      identifyBy = (case given_identifyBy source of Some s \<Rightarrow> s | None \<Rightarrow> identifyBy target)\<rparr>"

text \<open>
  A quality level is an object of the host: a finite map from property names to values.
  Reading a property that the object does not have gives \<open>undefined\<close>.
\<close>

type_synonym level = "string \<rightharpoonup> jsval"

definition property :: "level \<Rightarrow> string \<Rightarrow> jsval" where
  "property l k = (case l k of None \<Rightarrow> Undefined | Some v \<Rightarrow> v)"

section \<open>getIdentifierFromLevel\<close>

definition mags :: "string list" where
  "mags = ['''', ''k'', ''M'', ''G'', ''T'']"

text \<open>\<open>mags[mag]\<close>: reading past the end of an array gives \<open>undefined\<close>.\<close>

definition mags_at :: "nat \<Rightarrow> jsval" where
  "mags_at mag = (if mag < length mags then Str (mags ! mag) else Undefined)"

text \<open>
  The loop \<open>while (Math.floor(value) > 1e3 && mag < mags.length) { value = value / 1e3; mag++; }\<close>
  as a function of the two variables it updates.
\<close>

function scale_loop :: "engine \<Rightarrow> jsval \<Rightarrow> nat \<Rightarrow> jsval \<times> nat" where
  "scale_loop E v mag =
     (if num_lt (Fin 1000) (Math_floor (to_number E v)) \<and> mag < length mags
      then scale_loop E (Num (num_div (to_number E v) 1000)) (mag + 1)
      else (v, mag))"
  by pat_completeness auto
termination
  by (relation "measure (\<lambda>(E, v, mag). length mags - mag)") auto

declare scale_loop.simps [simp del]

definition format_bitrate :: "engine \<Rightarrow> jsval \<Rightarrow> jsval" where
  "format_bitrate E v =
     (case scale_loop E v 0 of
        (v', mag) \<Rightarrow>
          js_plus E (js_plus E (Num (Math_floor (to_number E v'))) (mags_at mag)) (Str ''bps''))"

definition getIdentifierFromLevel :: "engine \<Rightarrow> options \<Rightarrow> level \<Rightarrow> bool \<Rightarrow> jsval" where
  "getIdentifierFromLevel E opts l format =
     (let v = (if truthy (property l (identifyBy opts)) then property l (identifyBy opts)
               else property l ''height'')
      in if format then
           (if identifyBy opts = ''bitrate'' then format_bitrate E v
            else if identifyBy opts = ''height'' then js_plus E v (Str ''p'')
            else v)
         else v)"

section \<open>Menu items\<close>

text \<open>
  The object literal that \<open>onAddQualityLevel\<close> passes to \<open>getQualityMenuItem\<close>: a label, a
  value and, for the synthetic entry only, \<open>selected\<close> (a property left out reads as
  \<open>undefined\<close>). The property \<open>value\<close> is the field \<open>val\<close>.
\<close>

record descriptor =
  label :: jsval
  val :: jsval
  selected :: jsval

text \<open>
  What an array handed to the sort may hold: a primitive value, an object without an
  \<open>item\<close> property, or a menu item, whose \<open>item\<close> property is a descriptor.
\<close>

datatype entry = Prim jsval | Bare | MenuItem descriptor

text \<open>
  Modelled from the spec: the class ConcreteMenuItem (imported from ./ConcreteMenuItem, which
  is not among the sources). The menu item built for a descriptor keeps that descriptor as its
  \<open>item\<close> property, which is where \<open>onAddQualityLevel\<close> reads it back.
\<close>

definition getQualityMenuItem :: "descriptor \<Rightarrow> entry" where
  "getQualityMenuItem item = MenuItem item"

fun typeof :: "entry \<Rightarrow> string" where
  "typeof (Prim v) = typeof_prim v"
| "typeof Bare = ''object''"
| "typeof (MenuItem d) = ''object''"

text \<open>
  \<open>x.item\<close>: reading a property of \<open>undefined\<close> or \<open>null\<close> throws; any other value
  without the property gives \<open>undefined\<close> (\<open>None\<close> here).
\<close>

fun item_of :: "entry \<Rightarrow> error + descriptor option" where
  "item_of (Prim Undefined) = Inl TypeError"
| "item_of (Prim Null) = Inl TypeError"
| "item_of (Prim v) = Inr None"
| "item_of Bare = Inr None"
| "item_of (MenuItem d) = Inr (Some d)"

text \<open>\<open>x.item.value\<close>\<close>

definition item_value :: "entry \<Rightarrow> error + jsval" where
  "item_value x =
     (case item_of x of
        Inl e \<Rightarrow> Inl e
      | Inr None \<Rightarrow> Inl TypeError
      | Inr (Some d) \<Rightarrow> Inr (val d))"

section \<open>onAddQualityLevel\<close>

text \<open>The callback of the filter: \<open>_existingItem.item && _existingItem.item.value === id\<close>.\<close>

definition existing_matches :: "jsval \<Rightarrow> entry \<Rightarrow> error + bool" where
  "existing_matches ident x =
     (case item_of x of
        Inl e \<Rightarrow> Inl e
      | Inr None \<Rightarrow> Inr False
      | Inr (Some d) \<Rightarrow> Inr (strict_eq (val d) ident))"

text \<open>\<open>Array.prototype.filter\<close> with a callback that may throw.\<close>

fun filter_entries :: "(entry \<Rightarrow> error + bool) \<Rightarrow> entry list \<Rightarrow> error + entry list" where
  "filter_entries f [] = Inr []"
| "filter_entries f (x # xs) =
     (case f x of
        Inl e \<Rightarrow> Inl e
      | Inr b \<Rightarrow>
          (case filter_entries f xs of
             Inl e \<Rightarrow> Inl e
           | Inr ys \<Rightarrow> Inr (if b then x # ys else ys)))"

text \<open>
  The \<open>for\<close> loop over \<open>levels\<close>: the second argument is what is left of the collection,
  the third the array \<open>levelItems\<close> built so far.
\<close>

fun collect_levels :: "engine \<Rightarrow> options \<Rightarrow> level list \<Rightarrow> entry list \<Rightarrow> error + entry list" where
  "collect_levels E opts [] levelItems = Inr levelItems"
| "collect_levels E opts (l # ls) levelItems =
     (case filter_entries (existing_matches (getIdentifierFromLevel E opts l False)) levelItems of
        Inl e \<Rightarrow> Inl e
      | Inr found \<Rightarrow>
          if length found = 0
          then collect_levels E opts ls
                 (levelItems @
                  [getQualityMenuItem
                     \<lparr>label = getIdentifierFromLevel E opts l True,
                      val = getIdentifierFromLevel E opts l False,
                      selected = Undefined\<rparr>])
          else collect_levels E opts ls levelItems)"

text \<open>The comparison function given to \<open>sort\<close>.\<close>

definition comparator :: "engine \<Rightarrow> entry \<Rightarrow> entry \<Rightarrow> error + int" where
  "comparator E current nxt =
     (if typeof current \<noteq> ''object'' \<or> typeof nxt \<noteq> ''object'' then Inr (- 1)
      else
        (case item_value current of
           Inl e \<Rightarrow> Inl e
         | Inr cv \<Rightarrow>
             (case item_value nxt of
                Inl e \<Rightarrow> Inl e
              | Inr nv \<Rightarrow>
                  if js_lt E cv nv then Inr (- 1)
                  else if js_gt E cv nv then Inr 1
                  else Inr 0)))"

text \<open>
  \<open>Array.prototype.sort\<close> with a comparison function. The language asks for a stable sort
  and fixes no algorithm; the model is the stable insertion sort, in which an element goes in
  front of the first element of the sorted rest that it does not compare greater than. An
  exception of the comparison function ends the sort. (The arrays sorted here hold no
  \<open>undefined\<close>, which \<open>sort\<close> would move to the end without comparing.)
\<close>

fun place :: "('a \<Rightarrow> 'a \<Rightarrow> error + int) \<Rightarrow> 'a \<Rightarrow> 'a list \<Rightarrow> error + 'a list" where
  "place cmp x [] = Inr [x]"
| "place cmp x (y # ys) =
     (case cmp x y of
        Inl e \<Rightarrow> Inl e
      | Inr c \<Rightarrow>
          if c \<le> 0 then Inr (x # y # ys)
          else (case place cmp x ys of Inl e \<Rightarrow> Inl e | Inr zs \<Rightarrow> Inr (y # zs)))"

fun sort_by :: "('a \<Rightarrow> 'a \<Rightarrow> error + int) \<Rightarrow> 'a list \<Rightarrow> error + 'a list" where
  "sort_by cmp [] = Inr []"
| "sort_by cmp (x # xs) =
     (case sort_by cmp xs of Inl e \<Rightarrow> Inl e | Inr ys \<Rightarrow> place cmp x ys)"

definition auto_item :: "(string \<Rightarrow> string) \<Rightarrow> entry" where
  "auto_item localize =
     getQualityMenuItem \<lparr>label = Str (localize ''Auto''), val = Str ''auto'', selected = Bool True\<rparr>"

text \<open>
  The array \<open>levelItems\<close> as it stands when \<open>onAddQualityLevel\<close> hands it to the button:
  collected, sorted, and with the entry for Auto pushed at the end.
\<close>

definition levelItems :: "engine \<Rightarrow> options \<Rightarrow> (string \<Rightarrow> string) \<Rightarrow> level list \<Rightarrow> error + entry list" where
  "levelItems E opts localize levels =
     (case collect_levels E opts levels [] of
        Inl e \<Rightarrow> Inl e
      | Inr collected \<Rightarrow>
          (case sort_by (comparator E) collected of
             Inl e \<Rightarrow> Inl e
           | Inr sorted_items \<Rightarrow> Inr (sorted_items @ [auto_item localize])))"

section \<open>The player, the button and the plugin instance\<close>

text \<open>
  Modelled from the spec: the class ConcreteButton (imported from ./ConcreteButton, which is
  not among the sources). Of the button the plugin uses the list that its \<open>createItems\<close>
  function returns, its pressed state, which \<open>unpressButton\<close> resets, and the position it
  was inserted at in the control bar. A new button has no items and is not pressed.
\<close>

record button =
  createItems :: "entry list"
  pressed :: bool
  placementIndex :: int

text \<open>
  What the plugin reads of the host player: \<open>qualityLevels\<close> is \<open>None\<close> when the player
  has no such function, and otherwise the array \<open>levels_\<close> of the list it returns (the
  list's \<open>length\<close> and indexed properties are the host's view of that same array);
  \<open>hls\<close> tells whether \<open>tech().hls\<close> is there; \<open>children\<close> is the number of children of
  the control bar.
\<close>

record player =
  qualityLevels :: "level list option"
  hls :: bool
  localize :: "string \<Rightarrow> string"
  children :: nat

text \<open>
  An instance holds its player and, when the feature is active, its button (the property
  \<open>_qualityButton\<close>, which stays \<open>undefined\<close>, here \<open>None\<close>, otherwise). Its \<open>_options\<close>
  is no copy: \<open>Object.assign\<close> returns its target, so \<open>this._options\<close> is the module's
  \<open>defaults\<close> object itself. The functions below therefore take the current content of that
  one object as their \<open>options\<close> argument, and the constructor returns its new content.
\<close>

record plugin =
  player :: player
  qualityButton :: "button option"

definition getHls :: "player \<Rightarrow> bool" where
  "getHls p = hls p"

text \<open>
  The button is inserted among the children of \<open>_options.parent\<close>, which the constructor
  has set to the control bar of the player.
\<close>

definition createQualityButton :: "options \<Rightarrow> player \<Rightarrow> button" where
  "createQualityButton opts p =
     \<lparr>createItems = [], pressed = False,
      placementIndex = int (children p) + positionIndex opts\<rparr>"

definition constructor :: "options \<Rightarrow> player \<Rightarrow> user_options \<Rightarrow> options \<times> plugin" where
  "constructor defaults_now p given =
     (let opts = Object_assign defaults_now given in
      (opts,
       \<lparr>player = p,
        qualityButton =
          (if qualityLevels p \<noteq> None \<and> getHls p then Some (createQualityButton opts p) else None)\<rparr>))"

text \<open>
  \<open>videojs.mergeOptions(defaults, options)\<close> builds a new object with every property of
  \<open>defaults\<close>, overwritten by those of \<open>options\<close>; the plugin function passes it to the
  constructor.
\<close>

definition mergeOptions :: "options \<Rightarrow> user_options \<Rightarrow> user_options" where
  "mergeOptions d given =
     \<lparr>given_positionIndex = Some (positionIndex (Object_assign d given)),
      given_identifyBy = Some (identifyBy (Object_assign d given))\<rparr>"

definition hlsQualitySelector :: "options \<Rightarrow> player \<Rightarrow> user_options \<Rightarrow> options \<times> plugin" where
  "hlsQualitySelector defaults_now p given = constructor defaults_now p (mergeOptions defaults_now given)"

definition onAddQualityLevel :: "engine \<Rightarrow> options \<Rightarrow> plugin \<Rightarrow> error + plugin" where
  "onAddQualityLevel E opts pl =
     (case qualityLevels (player pl) of
        None \<Rightarrow> Inl TypeError
      | Some levels \<Rightarrow>
          (case levelItems E opts (localize (player pl)) levels of
             Inl e \<Rightarrow> Inl e
           | Inr items \<Rightarrow>
               (case qualityButton pl of
                  None \<Rightarrow> Inr pl
                | Some b \<Rightarrow> Inr (pl\<lparr>qualityButton := Some (b\<lparr>createItems := items\<rparr>)\<rparr>))))"

section \<open>setQuality\<close>

text \<open>The loop over the quality list: each level gets its \<open>enabled\<close> property assigned.\<close>

fun enable_levels :: "engine \<Rightarrow> options \<Rightarrow> jsval \<Rightarrow> level list \<Rightarrow> level list" where
  "enable_levels E opts identifier [] = []"
| "enable_levels E opts identifier (quality # rest) =
     quality(''enabled'' \<mapsto>
       Bool (strict_eq (getIdentifierFromLevel E opts quality False) identifier
             \<or> strict_eq identifier (Str ''auto'')))
     # enable_levels E opts identifier rest"

text \<open>
  \<open>setQuality\<close> returns nothing; the result is the instance after the call and how the call
  completed: \<open>None\<close> normally, \<open>Some TypeError\<close> when it threw. Without a button the call
  throws at \<open>unpressButton\<close>, after the loop has assigned the flags.
\<close>

definition setQuality :: "engine \<Rightarrow> options \<Rightarrow> plugin \<Rightarrow> jsval \<Rightarrow> plugin \<times> error option" where
  "setQuality E opts pl identifier =
     (case qualityLevels (player pl) of
        None \<Rightarrow> (pl, Some TypeError)
      | Some levels \<Rightarrow>
          (let pl' = pl\<lparr>player := (player pl)\<lparr>qualityLevels := Some (enable_levels E opts identifier levels)\<rparr>\<rparr>
           in case qualityButton pl' of
                None \<Rightarrow> (pl', Some TypeError)
              | Some b \<Rightarrow> (pl'\<lparr>qualityButton := Some (b\<lparr>pressed := False\<rparr>)\<rparr>, None)))"

text \<open>The \<open>enabled\<close> flags of the levels of an instance, in the order of the collection.\<close>

definition enabled_flags :: "plugin \<Rightarrow> jsval list" where
  "enabled_flags pl =
     (case qualityLevels (player pl) of
        None \<Rightarrow> []
      | Some levels \<Rightarrow> map (\<lambda>l. property l ''enabled'') levels)"

section \<open>Notions used to state the properties\<close>

fun is_item :: "entry \<Rightarrow> bool" where
  "is_item (MenuItem d) = True"
| "is_item _ = False"

text \<open>
  A real entry is a menu item built from a level: its descriptor has no \<open>selected\<close>
  property. The entry for Auto is the synthetic one.
\<close>

fun is_real :: "entry \<Rightarrow> bool" where
  "is_real (MenuItem d) = (selected d = Undefined)"
| "is_real _ = False"

text \<open>The value of an entry of the menu list.\<close>

fun entry_val :: "entry \<Rightarrow> jsval" where
  "entry_val (MenuItem d) = val d"
| "entry_val _ = Undefined"

text \<open>
  What the collection loop keeps of a list of identifiers, given the values kept so far: an
  identifier is kept unless it is \<open>===\<close> to a value kept before it.
\<close>

fun kept_values :: "jsval list \<Rightarrow> jsval list \<Rightarrow> jsval list" where
  "kept_values seen [] = []"
| "kept_values seen (x # xs) =
     (if list_ex (\<lambda>s. strict_eq s x) seen then kept_values seen xs
      else x # kept_values (seen @ [x]) xs)"

text \<open>
  The specification's description of the collection step, in its own words: walk the
  identifiers in order, keep the first occurrence of each, and skip an identifier that has
  been seen already.
\<close>

fun first_occurrences :: "jsval list \<Rightarrow> jsval list \<Rightarrow> jsval list" where
  "first_occurrences seen [] = []"
| "first_occurrences seen (x # xs) =
     (if x \<in> set seen then first_occurrences seen xs
      else x # first_occurrences (seen @ [x]) xs)"

fun is_finite_number :: "jsval \<Rightarrow> bool" where
  "is_finite_number (Num (Fin r)) = True"
| "is_finite_number _ = False"

fun the_number :: "jsval \<Rightarrow> rat" where
  "the_number (Num (Fin r)) = r"
| "the_number _ = 0"

text \<open>
  Identifiers that \<open><\<close> puts in a strict linear order: finite numbers, all of them, or
  strings, all of them.
\<close>

definition same_kind :: "jsval \<Rightarrow> jsval \<Rightarrow> bool" where
  "same_kind a b = ((is_finite_number a \<and> is_finite_number b) \<or> (is_Str a \<and> is_Str b))"

definition comparable :: "jsval list \<Rightarrow> bool" where
  "comparable vs = (list_all is_finite_number vs \<or> list_all is_Str vs)"

text \<open>Inputs for the examples: a level with one numeric property, and fixed parameters.\<close>

definition level_of :: "string \<Rightarrow> rat \<Rightarrow> level" where
  "level_of field r = [field \<mapsto> Num (Fin r)]"

definition by_bitrate :: options where
  "by_bitrate = \<lparr>positionIndex = - 2, identifyBy = ''bitrate''\<rparr>"

definition sample_engine :: engine where
  "sample_engine = \<lparr>StringToNumber = (\<lambda>s. NaN), NumberToString = (\<lambda>r. ''?'')\<rparr>"

definition untranslated :: "string \<Rightarrow> string" where
  "untranslated s = s"

text \<open>
  The specification's description of the bitrate label, in its own words: divide the value
  by 1000 while the value exceeds 1000 and fewer than 4 scalings have been applied; the
  label is the floor of the scaled value, the suffix that the number of scalings selects, and
  \<open>bps\<close>.
\<close>

function spec_scale :: "rat \<Rightarrow> nat \<Rightarrow> rat \<times> nat" where
  "spec_scale v n = (if 1000 < v \<and> n < 4 then spec_scale (v / 1000) (n + 1) else (v, n))"
  by pat_completeness auto
termination
  by (relation "measure (\<lambda>(v, n). 4 - n)") auto

declare spec_scale.simps [simp del]

definition spec_format_bitrate :: "engine \<Rightarrow> rat \<Rightarrow> jsval" where
  "spec_format_bitrate E r =
     (case spec_scale r 0 of
        (v, n) \<Rightarrow> Str (number_to_string E (Fin (of_int \<lfloor>v\<rfloor>)) @ mags ! n @ ''bps''))"

text \<open>The same description with the test that the loop makes: on the floor of the value.\<close>

function floor_scale :: "rat \<Rightarrow> nat \<Rightarrow> rat \<times> nat" where
  "floor_scale v n = (if 1000 < \<lfloor>v\<rfloor> \<and> n < 4 then floor_scale (v / 1000) (n + 1) else (v, n))"
  by pat_completeness auto
termination
  by (relation "measure (\<lambda>(v, n). 4 - n)") auto

declare floor_scale.simps [simp del]

definition floor_format_bitrate :: "engine \<Rightarrow> rat \<Rightarrow> jsval" where
  "floor_format_bitrate E r =
     (case floor_scale r 0 of
        (v, n) \<Rightarrow> Str (number_to_string E (Fin (of_int \<lfloor>v\<rfloor>)) @ mags ! n @ ''bps''))"

text \<open>
  A player for the examples, with the quality levels plugin and the HLS tech, and the
  instance that the constructor builds for it from the initial defaults and no options.
\<close>

definition sample_player :: "level list \<Rightarrow> player" where
  "sample_player levels =
     \<lparr>qualityLevels = Some levels, hls = True, localize = untranslated, children = 10\<rparr>"

definition no_options :: user_options where
  "no_options = \<lparr>given_positionIndex = None, given_identifyBy = None\<rparr>"

definition sample_plugin :: "level list \<Rightarrow> plugin" where
  "sample_plugin levels = snd (constructor defaults (sample_player levels) no_options)"

text \<open>The instance built for a player without the HLS tech: it gets no button.\<close>

definition inert_plugin :: "level list \<Rightarrow> plugin" where
  "inert_plugin levels =
     snd (constructor defaults ((sample_player levels)\<lparr>hls := False\<rparr>) no_options)"


section \<open>The collection loop and the sort\<close>

lemma filter_entries_items:
  "list_all is_item xs \<Longrightarrow>
   filter_entries (existing_matches ident) xs = Inr (filter (\<lambda>x. strict_eq (entry_val x) ident) xs)"
proof (induction xs)
  case Nil
  show ?case by simp
next
  case (Cons x xs)
  then obtain d where "x = MenuItem d" by (cases x) auto
  with Cons show ?case by (simp add: existing_matches_def)
qed

lemma collect_levels_items:
  "list_all is_item acc \<Longrightarrow>
   \<exists>new. collect_levels E opts ls acc = Inr (acc @ new) \<and> list_all is_item new \<and>
     map entry_val new =
       kept_values (map entry_val acc) (map (\<lambda>l. getIdentifierFromLevel E opts l False) ls)"
proof (induction ls arbitrary: acc)
  case Nil
  show ?case by simp
next
  case (Cons l ls)
  let ?i = "getIdentifierFromLevel E opts l False"
  let ?new = "getQualityMenuItem \<lparr>label = getIdentifierFromLevel E opts l True, val = ?i, selected = Undefined\<rparr>"
  have f: "filter_entries (existing_matches ?i) acc = Inr (filter (\<lambda>x. strict_eq (entry_val x) ?i) acc)"
    using Cons.prems by (rule filter_entries_items)
  have ex: "(filter (\<lambda>x. strict_eq (entry_val x) ?i) acc = []) = (\<not> list_ex (\<lambda>s. strict_eq s ?i) (map entry_val acc))"
    by (auto simp: filter_empty_conv list_ex_iff)
  show ?case
  proof (cases "list_ex (\<lambda>s. strict_eq s ?i) (map entry_val acc)")
    case True
    with Cons.IH [OF Cons.prems] f ex show ?thesis by simp
  next
    case False
    have "list_all is_item (acc @ [?new])"
      using Cons.prems by (simp add: getQualityMenuItem_def)
    from Cons.IH [OF this] obtain new where
      n: "collect_levels E opts ls (acc @ [?new]) = Inr ((acc @ [?new]) @ new)" "list_all is_item new"
        "map entry_val new = kept_values (map entry_val (acc @ [?new])) (map (\<lambda>l. getIdentifierFromLevel E opts l False) ls)"
      by blast
    have "collect_levels E opts (l # ls) acc = Inr (acc @ (?new # new))"
      using False f ex n(1) by simp
    moreover have "list_all is_item (?new # new)"
      using n(2) by (simp add: getQualityMenuItem_def)
    moreover have "map entry_val (?new # new) =
       kept_values (map entry_val acc) (map (\<lambda>l. getIdentifierFromLevel E opts l False) (l # ls))"
      using False n(3) by (simp add: getQualityMenuItem_def)
    ultimately show ?thesis by blast
  qed
qed

lemma comparator_items:
  "comparator E (MenuItem c) (MenuItem n) =
     Inr (if js_lt E (val c) (val n) then - 1 else if js_gt E (val c) (val n) then 1 else 0)"
  by (simp add: comparator_def item_value_def)

lemma place_items:
  "is_item x \<Longrightarrow> list_all is_item ys \<Longrightarrow>
   \<exists>zs. place (comparator E) x ys = Inr zs \<and> mset zs = mset (x # ys)"
proof (induction ys)
  case Nil
  show ?case by simp
next
  case (Cons y ys)
  from Cons.prems obtain c n where xy: "x = MenuItem c" "y = MenuItem n"
    by (cases x; cases y) auto
  from Cons obtain zs where zs: "place (comparator E) x ys = Inr zs" "mset zs = mset (x # ys)"
    by auto
  show ?case using xy zs by (simp add: comparator_items)
qed

lemma sort_by_items:
  "list_all is_item xs \<Longrightarrow> \<exists>ys. sort_by (comparator E) xs = Inr ys \<and> mset ys = mset xs"
proof (induction xs)
  case Nil
  show ?case by simp
next
  case (Cons x xs)
  then obtain ys where ys: "sort_by (comparator E) xs = Inr ys" "mset ys = mset xs" by auto
  have "list_all is_item ys"
    using ys(2) Cons.prems by (metis list.pred_inject(2) list_all_iff set_mset_mset)
  with Cons.prems obtain zs where "place (comparator E) x ys = Inr zs" "mset zs = mset (x # ys)"
    using place_items [of x ys E] by auto
  with ys show ?case by simp
qed

lemma no_strict_eq_distinct:
  "sorted_wrt (\<lambda>a b. \<not> strict_eq a b) xs = distinct (filter (\<lambda>v. v \<noteq> Num NaN) xs)"
  by (induction xs) (auto simp: strict_eq_def)

lemma kept_values_unseen:
  "y \<in> set (kept_values seen xs) \<Longrightarrow> s \<in> set seen \<Longrightarrow> \<not> strict_eq s y"
  by (induction seen xs rule: kept_values.induct) (auto simp: list_ex_iff split: if_splits)

lemma kept_values_set:
  "set (kept_values seen xs) \<subseteq> set xs"
  by (induction seen xs rule: kept_values.induct) auto

lemma kept_values_covers:
  "x \<in> set xs \<Longrightarrow> x \<in> set (kept_values seen xs) \<or> (\<exists>s \<in> set seen. strict_eq s x) "
proof (induction seen xs rule: kept_values.induct)
  case (1 seen)
  then show ?case by simp
next
  case (2 seen y ys)
  show ?case
  proof (cases "list_ex (\<lambda>s. strict_eq s y) seen")
    case True
    with 2 show ?thesis by (auto simp: list_ex_iff strict_eq_def)
  next
    case False
    with 2 show ?thesis by (auto simp: list_ex_iff strict_eq_def)
  qed
qed

lemma kept_values_no_equal:
  "sorted_wrt (\<lambda>a b. \<not> strict_eq a b) (kept_values seen xs)"
proof (induction seen xs rule: kept_values.induct)
  case (1 seen)
  show ?case by simp
next
  case (2 seen x xs)
  show ?case
  proof (cases "list_ex (\<lambda>s. strict_eq s x) seen")
    case True
    with 2 show ?thesis by simp
  next
    case False
    have "\<forall>y \<in> set (kept_values (seen @ [x]) xs). \<not> strict_eq x y"
      using kept_values_unseen [of _ "seen @ [x]" xs x] by simp
    with False 2 show ?thesis by simp
  qed
qed

lemma comparator_numbers:
  "is_finite_number (val c) \<Longrightarrow> is_finite_number (val n) \<Longrightarrow>
   comparator E (MenuItem c) (MenuItem n) =
     Inr (if the_number (val c) < the_number (val n) then - 1
          else if the_number (val n) < the_number (val c) then 1 else 0)"
  by (cases "val c" rule: is_finite_number.cases; cases "val n" rule: is_finite_number.cases)
     (simp_all add: comparator_items js_gt_def)

lemma place_numbers:
  "list_all (\<lambda>e. is_item e \<and> is_finite_number (entry_val e)) (x # ys) \<Longrightarrow>
   place (comparator E) x ys = Inr zs \<Longrightarrow>
   map (\<lambda>e. the_number (entry_val e)) zs =
     insort (the_number (entry_val x)) (map (\<lambda>e. the_number (entry_val e)) ys)"
proof (induction ys arbitrary: zs)
  case Nil
  then show ?case by auto
next
  case (Cons y ys)
  from Cons.prems(1) obtain c n where xy: "x = MenuItem c" "y = MenuItem n"
    by (cases x; cases y) auto
  with Cons.prems(1) have fin: "is_finite_number (val c)" "is_finite_number (val n)" by auto
  show ?case
  proof (cases "the_number (val c) \<le> the_number (val n)")
    case True
    with Cons.prems(2) xy fin show ?thesis
      by (auto simp: comparator_numbers split: if_splits)
  next
    case False
    with Cons.prems(2) xy fin obtain zs' where
      z: "place (comparator E) x ys = Inr zs'" "zs = y # zs'"
      by (auto simp: comparator_numbers split: if_splits sum.splits)
    from Cons.prems(1) have "list_all (\<lambda>e. is_item e \<and> is_finite_number (entry_val e)) (x # ys)"
      by simp
    from Cons.IH [OF this z(1)] False xy z(2) show ?thesis by simp
  qed
qed

lemma sort_by_numbers:
  "list_all (\<lambda>e. is_item e \<and> is_finite_number (entry_val e)) xs \<Longrightarrow>
   sort_by (comparator E) xs = Inr ys \<Longrightarrow>
   map (\<lambda>e. the_number (entry_val e)) ys = sort (map (\<lambda>e. the_number (entry_val e)) xs)"
proof (induction xs arbitrary: ys)
  case Nil
  then show ?case by simp
next
  case (Cons x xs)
  from Cons.prems(1) have items: "list_all is_item xs" and rest: "list_all (\<lambda>e. is_item e \<and> is_finite_number (entry_val e)) xs"
    by (simp_all add: list_all_iff)
  from sort_by_items [OF items, of E] obtain ws where
    ws: "sort_by (comparator E) xs = Inr ws" "mset ws = mset xs" by blast
  from ws(2) have "set ws = set xs" by (rule mset_eq_setD)
  with Cons.prems(1) have all: "list_all (\<lambda>e. is_item e \<and> is_finite_number (entry_val e)) (x # ws)"
    by (simp add: list_all_iff)
  from Cons.prems(2) ws(1) have "place (comparator E) x ws = Inr ys" by simp
  from place_numbers [OF all this] Cons.IH [OF rest ws(1)] show ?case
    by (simp add: sort_key_simps)
qed

lemma levelItems_shape:
  "\<exists>collected reals.
     collect_levels E opts levels [] = Inr collected \<and>
     list_all is_item collected \<and>
     map entry_val collected =
       kept_values [] (map (\<lambda>l. getIdentifierFromLevel E opts l False) levels) \<and>
     sort_by (comparator E) collected = Inr reals \<and>
     mset reals = mset collected \<and>
     levelItems E opts loc levels = Inr (reals @ [auto_item loc])"
proof -
  from collect_levels_items [of "[]" E opts levels] obtain collected where
    c: "collect_levels E opts levels [] = Inr collected" "list_all is_item collected"
       "map entry_val collected =
          kept_values [] (map (\<lambda>l. getIdentifierFromLevel E opts l False) levels)"
    by auto
  from sort_by_items [OF c(2), of E] obtain reals where
    r: "sort_by (comparator E) collected = Inr reals" "mset reals = mset collected" by blast
  have "levelItems E opts loc levels = Inr (reals @ [auto_item loc])"
    by (simp add: levelItems_def c(1) r(1))
  with c r show ?thesis by blast
qed

lemma collect_levels_real:
  "collect_levels E opts ls acc = Inr r \<Longrightarrow> list_all is_real acc \<Longrightarrow> list_all is_real r"
proof (induction ls arbitrary: acc)
  case Nil
  then show ?case by simp
next
  case (Cons l ls)
  then show ?case
    by (auto simp: getQualityMenuItem_def split: sum.splits if_splits)
qed

lemma finite_number_shape: "is_finite_number v \<Longrightarrow> Num (Fin (the_number v)) = v"
  by (cases v rule: is_finite_number.cases) simp_all

lemma levelItems_numbers:
  assumes fin: "list_all (\<lambda>l. is_finite_number (getIdentifierFromLevel E opts l False)) levels"
  shows "\<exists>reals rs.
     levelItems E opts loc levels = Inr (reals @ [auto_item loc]) \<and>
     map entry_val reals = map (\<lambda>r. Num (Fin r)) rs \<and>
     sorted_wrt (<) rs \<and>
     set rs = (\<lambda>l. the_number (getIdentifierFromLevel E opts l False)) ` set levels"
proof -
  let ?ids = "map (\<lambda>l. getIdentifierFromLevel E opts l False) levels"
  let ?n = "\<lambda>e. the_number (entry_val e)"
  from levelItems_shape [of E opts levels loc] obtain collected reals where
    s: "list_all is_item collected"
       "map entry_val collected = kept_values [] ?ids"
       "sort_by (comparator E) collected = Inr reals"
       "mset reals = mset collected"
       "levelItems E opts loc levels = Inr (reals @ [auto_item loc])"
    by blast
  have idfin: "\<forall>v \<in> set ?ids. is_finite_number v"
    using fin by (simp add: list_all_iff)
  have sub: "set (map entry_val collected) \<subseteq> set ?ids"
    unfolding s(2) by (rule kept_values_set)
  have cfin: "\<forall>e \<in> set collected. is_finite_number (entry_val e)"
    using sub idfin by auto
  then have call: "list_all (\<lambda>e. is_item e \<and> is_finite_number (entry_val e)) collected"
    using s(1) by (simp add: list_all_iff)
  have nums: "map ?n reals = sort (map ?n collected)"
    using call s(3) by (rule sort_by_numbers)
  have seteq: "set reals = set collected" using s(4) by (rule mset_eq_setD)
  have rfin: "\<forall>e \<in> set reals. is_finite_number (entry_val e)"
    using cfin seteq by simp
  have vals: "map entry_val reals = map (\<lambda>r. Num (Fin r)) (map ?n reals)"
    using rfin by (simp add: finite_number_shape)
  have d0: "distinct (filter (\<lambda>v. v \<noteq> Num NaN) (map entry_val collected))"
    unfolding s(2) no_strict_eq_distinct [symmetric] by (rule kept_values_no_equal)
  have "filter (\<lambda>v. v \<noteq> Num NaN) (map entry_val collected) = map entry_val collected"
    using cfin by (auto simp: filter_id_conv)
  with d0 have d1: "distinct (map entry_val collected)" by simp
  have "inj_on the_number (set (map entry_val collected))"
  proof (rule inj_onI)
    fix v w
    assume "v \<in> set (map entry_val collected)" "w \<in> set (map entry_val collected)"
      and eq: "the_number v = the_number w"
    with cfin have fv: "is_finite_number v" and fw: "is_finite_number w" by auto
    have a: "Num (Fin (the_number v)) = v" by (rule finite_number_shape [OF fv])
    have b: "Num (Fin (the_number w)) = w" by (rule finite_number_shape [OF fw])
    have "v = Num (Fin (the_number v))" using a by (rule sym)
    also have "\<dots> = Num (Fin (the_number w))" using eq by simp
    also have "\<dots> = w" by (rule b)
    finally show "v = w" .
  qed
  with d1 have "distinct (map the_number (map entry_val collected))"
    by (simp only: distinct_map) 
  then have d2: "distinct (map ?n collected)" by (simp add: comp_def)
  have sorted: "sorted_wrt (<) (map ?n reals)"
    unfolding nums using d2 by (simp add: strict_sorted_iff)
  have "set (map ?n reals) = the_number ` set (map entry_val collected)"
    unfolding nums by (simp add: image_image)
  then have "set (map ?n reals) = the_number ` set (kept_values [] ?ids)"
    by (simp only: s(2))
  moreover have "set (kept_values [] ?ids) = set ?ids"
  proof
    show "set (kept_values [] ?ids) \<subseteq> set ?ids" by (rule kept_values_set)
    show "set ?ids \<subseteq> set (kept_values [] ?ids)"
      using kept_values_covers [of _ ?ids "[]"] by auto
  qed
  ultimately have "set (map ?n reals) = (\<lambda>l. the_number (getIdentifierFromLevel E opts l False)) ` set levels"
    by (simp add: image_image)
  with s(5) vals sorted show ?thesis by blast
qed


lemma levelItems_real:
  "\<exists>reals. levelItems E opts loc levels = Inr (reals @ [auto_item loc]) \<and> list_all is_real reals"
proof -
  from levelItems_shape [of E opts levels loc] obtain collected reals where
    s: "collect_levels E opts levels [] = Inr collected"
       "mset reals = mset collected"
       "levelItems E opts loc levels = Inr (reals @ [auto_item loc])"
    by blast
  have "list_all is_real collected"
    using s(1) by (rule collect_levels_real) simp
  moreover have "set reals = set collected" using s(2) by (rule mset_eq_setD)
  ultimately have "list_all is_real reals" by (simp add: list_all_iff)
  with s(3) show ?thesis by blast
qed

section \<open>The sort on identifiers that can be compared\<close>

lemma str_lt_lexordp: "str_lt a b = ord_class.lexordp (map of_char a :: nat list) (map of_char b)"
  by (induction a b rule: str_lt.induct) auto

lemma str_lt_asym: "str_lt a b \<Longrightarrow> \<not> str_lt b a"
  unfolding str_lt_lexordp by (rule lexordp_antisym [THEN notI, rotated]) auto

lemma str_lt_trans: "str_lt a b \<Longrightarrow> str_lt b c \<Longrightarrow> str_lt a c"
  unfolding str_lt_lexordp by (rule lexordp_trans)

lemma str_lt_total: "a \<noteq> b \<Longrightarrow> str_lt a b \<or> str_lt b a"
proof -
  assume "a \<noteq> b"
  then have "map of_char a \<noteq> (map of_char b :: nat list)"
    by (simp add: inj_map_eq_map inj_on_def)
  then show ?thesis
    unfolding str_lt_lexordp
    using lexordp_linear [of "map of_char a :: nat list" "map of_char b"] by blast
qed

lemma js_lt_asym: "same_kind a b \<Longrightarrow> js_lt E a b \<Longrightarrow> \<not> js_lt E b a"
  by (cases a rule: is_finite_number.cases; cases b rule: is_finite_number.cases)
     (auto simp: same_kind_def dest: str_lt_asym)

lemma js_lt_total: "same_kind a b \<Longrightarrow> a \<noteq> b \<Longrightarrow> js_lt E a b \<or> js_lt E b a"
  by (cases a rule: is_finite_number.cases; cases b rule: is_finite_number.cases)
     (auto simp: same_kind_def dest: str_lt_total)

lemma js_lt_trans: "same_kind a b \<Longrightarrow> same_kind b c \<Longrightarrow> js_lt E a b \<Longrightarrow> js_lt E b c \<Longrightarrow> js_lt E a c"
  by (cases a rule: is_finite_number.cases; cases b rule: is_finite_number.cases;
      cases c rule: is_finite_number.cases)
     (auto simp: same_kind_def dest: str_lt_trans)


lemma js_lt_negtrans:
  assumes "same_kind a b" "same_kind b c" "same_kind a c"
    and "\<not> js_lt E b a" "\<not> js_lt E c b"
  shows "\<not> js_lt E c a"
proof
  assume ca: "js_lt E c a"
  show False
  proof (cases "b = c")
    case True
    with ca assms(4) show False by simp
  next
    case False
    with assms(2) assms(5) have "js_lt E b c" using js_lt_total [of b c E] by blast
    with ca assms(2,3) have "js_lt E b a"
      using js_lt_trans [of b c a E] by (auto simp: same_kind_def)
    with assms(4) show False by simp
  qed
qed

lemma comparable_same_kind:
  "comparable vs \<Longrightarrow> a \<in> set vs \<Longrightarrow> b \<in> set vs \<Longrightarrow> same_kind a b"
  by (auto simp: comparable_def same_kind_def list_all_iff)

lemma place_comparable:
  assumes "list_all is_item (x # ys)"
    and "comparable (map entry_val (x # ys))"
    and "sorted_wrt (\<lambda>a b. \<not> js_lt E (entry_val b) (entry_val a)) ys"
    and "place (comparator E) x ys = Inr zs"
  shows "sorted_wrt (\<lambda>a b. \<not> js_lt E (entry_val b) (entry_val a)) zs"
  using assms
proof (induction ys arbitrary: zs)
  case Nil
  then show ?case by auto
next
  case (Cons y ys)
  from Cons.prems(1) obtain c n where xy: "x = MenuItem c" "y = MenuItem n"
    by (cases x; cases y) auto
  have kind: "same_kind (entry_val a) (entry_val b)"
    if "a \<in> set (x # y # ys)" "b \<in> set (x # y # ys)" for a b
  proof (rule comparable_same_kind [OF Cons.prems(2)])
    show "entry_val a \<in> set (map entry_val (x # y # ys))" using that(1) by (simp only: set_map) (rule imageI)
    show "entry_val b \<in> set (map entry_val (x # y # ys))" using that(2) by (simp only: set_map) (rule imageI)
  qed
  show ?case
  proof (cases "\<not> js_lt E (val c) (val n) \<and> js_lt E (val n) (val c)")
    case True
    with Cons.prems(4) xy obtain zs' where
      z: "place (comparator E) x ys = Inr zs'" "zs = y # zs'"
      by (auto simp: comparator_items js_gt_def split: sum.splits)
    from Cons.prems(1) have i: "list_all is_item (x # ys)" by simp
    from Cons.prems(2) have k: "comparable (map entry_val (x # ys))"
      by (auto simp: comparable_def)
    from Cons.prems(3) have s: "sorted_wrt (\<lambda>a b. \<not> js_lt E (entry_val b) (entry_val a)) ys"
      by simp
    from Cons.IH [OF i k s z(1)] have "sorted_wrt (\<lambda>a b. \<not> js_lt E (entry_val b) (entry_val a)) zs'" .
    moreover have "set zs' = set (x # ys)"
    proof -
      from place_items [of x ys E] i z(1) have "mset zs' = mset (x # ys)" by simp
      then show ?thesis by (rule mset_eq_setD)
    qed
    ultimately show ?thesis
      using z(2) True xy Cons.prems(3) by auto
  next
    case False
    with Cons.prems(4) xy have zs: "zs = x # y # ys"
      by (auto simp: comparator_items js_gt_def split: if_splits)
    have xy_le: "\<not> js_lt E (entry_val y) (entry_val x)"
    proof (cases "js_lt E (val c) (val n)")
      case True
      then show ?thesis using js_lt_asym [OF kind [of x y]] xy by auto
    next
      case no: False
      with False xy show ?thesis by simp
    qed
    have "\<not> js_lt E (entry_val w) (entry_val x)" if w: "w \<in> set ys" for w
    proof -
      from Cons.prems(3) w have "\<not> js_lt E (entry_val w) (entry_val y)" by auto
      with xy_le show ?thesis
        using js_lt_negtrans [of "entry_val x" "entry_val y" "entry_val w" E]
          kind [of x y] kind [of y w] kind [of x w] w by simp
    qed
    with xy_le Cons.prems(3) zs show ?thesis by auto
  qed
qed

lemma sort_by_comparable:
  "list_all is_item xs \<Longrightarrow> comparable (map entry_val xs) \<Longrightarrow>
   sort_by (comparator E) xs = Inr ys \<Longrightarrow>
   sorted_wrt (\<lambda>a b. \<not> js_lt E (entry_val b) (entry_val a)) ys"
proof (induction xs arbitrary: ys)
  case Nil
  then show ?case by simp
next
  case (Cons x xs)
  from Cons.prems(1) have items: "list_all is_item xs" by simp
  from Cons.prems(2) have k: "comparable (map entry_val xs)" by (auto simp: comparable_def)
  from sort_by_items [OF items, of E] obtain ws where
    ws: "sort_by (comparator E) xs = Inr ws" "mset ws = mset xs" by blast
  from ws(2) have set: "set ws = set xs" by (rule mset_eq_setD)
  have i: "list_all is_item (x # ws)"
    using Cons.prems(1) set by (simp add: list_all_iff)
  have c: "comparable (map entry_val (x # ws))"
    using Cons.prems(2) set by (simp add: comparable_def list_all_iff)
  from Cons.prems(3) ws(1) have p: "place (comparator E) x ws = Inr ys" by simp
  from place_comparable [OF i c Cons.IH [OF items k ws(1)] p] show ?case .
qed

lemma strictly_ascending:
  "comparable vs \<Longrightarrow> distinct vs \<Longrightarrow> sorted_wrt (\<lambda>a b. \<not> js_lt E b a) vs \<Longrightarrow>
   sorted_wrt (js_lt E) vs"
proof (induction vs)
  case Nil
  show ?case by simp
next
  case (Cons v vs)
  from Cons.prems(1) have k: "comparable vs" by (auto simp: comparable_def)
  have "js_lt E v w" if "w \<in> set vs" for w
  proof -
    from that Cons.prems(2) have "v \<noteq> w" by auto
    moreover from that Cons.prems(3) have "\<not> js_lt E w v" by simp
    moreover have "same_kind v w"
      using comparable_same_kind [OF Cons.prems(1), of v w] that by simp
    ultimately show ?thesis using js_lt_total [of v w E] by blast
  qed
  with Cons k show ?case by simp
qed

lemma levelItems_comparable:
  assumes cmp: "comparable (map (\<lambda>l. getIdentifierFromLevel E opts l False) levels)"
  shows "\<exists>reals.
     levelItems E opts loc levels = Inr (reals @ [auto_item loc]) \<and>
     sorted_wrt (js_lt E) (map entry_val reals) \<and>
     set (map entry_val reals) = set (map (\<lambda>l. getIdentifierFromLevel E opts l False) levels)"
proof -
  let ?ids = "map (\<lambda>l. getIdentifierFromLevel E opts l False) levels"
  from levelItems_shape [of E opts levels loc] obtain collected reals where
    s: "list_all is_item collected"
       "map entry_val collected = kept_values [] ?ids"
       "sort_by (comparator E) collected = Inr reals"
       "mset reals = mset collected"
       "levelItems E opts loc levels = Inr (reals @ [auto_item loc])"
    by blast
  have ids: "set (kept_values [] ?ids) = set ?ids"
  proof
    show "set (kept_values [] ?ids) \<subseteq> set ?ids" by (rule kept_values_set)
    show "set ?ids \<subseteq> set (kept_values [] ?ids)"
      using kept_values_covers [of _ ?ids "[]"] by auto
  qed
  have vset: "set (map entry_val reals) = set (map entry_val collected)"
    using s(4) by (metis mset_eq_setD mset_map)
  have ccmp: "comparable (map entry_val collected)"
    using cmp unfolding s(2) comparable_def list_all_iff ids .
  have rcmp: "comparable (map entry_val reals)"
    using ccmp vset unfolding comparable_def list_all_iff by simp
  have le: "sorted_wrt (\<lambda>a b. \<not> js_lt E (entry_val b) (entry_val a)) reals"
    using s(1) ccmp s(3) by (rule sort_by_comparable)
  have "\<not> is_finite_number (Num NaN)" "\<not> is_Str (Num NaN)" by simp_all
  then have nonan: "Num NaN \<notin> set (map entry_val reals)"
    using rcmp unfolding comparable_def list_all_iff by blast
  have "distinct (filter (\<lambda>v. v \<noteq> Num NaN) (map entry_val collected))"
    unfolding s(2) no_strict_eq_distinct [symmetric] by (rule kept_values_no_equal)
  moreover have "mset (filter (\<lambda>v. v \<noteq> Num NaN) (map entry_val reals)) =
      mset (filter (\<lambda>v. v \<noteq> Num NaN) (map entry_val collected))"
    using s(4) by (metis mset_filter mset_map)
  ultimately have "distinct (filter (\<lambda>v. v \<noteq> Num NaN) (map entry_val reals))"
    by (metis mset_eq_imp_distinct_iff)
  moreover have "filter (\<lambda>v. v \<noteq> Num NaN) (map entry_val reals) = map entry_val reals"
    using nonan by (auto simp: filter_id_conv simp del: set_map)
  ultimately have d: "distinct (map entry_val reals)" by simp
  have "sorted_wrt (\<lambda>a b. \<not> js_lt E b a) (map entry_val reals)"
    using le by (simp add: sorted_wrt_map)
  with rcmp d have "sorted_wrt (js_lt E) (map entry_val reals)"
    by (rule strictly_ascending)
  moreover have "set (map entry_val reals) = set ?ids"
    unfolding vset s(2) ids ..
  ultimately show ?thesis using s(5) by blast
qed

section \<open>Order of the menu list\<close>

text \<open>
  C1 (as amended). For every collection of levels the menu list is the real entries followed
  by the one synthetic entry, whose value is \<open>auto\<close>, as its last element. When the
  identifier of every level is a finite number, the values of the real entries are these
  numbers in strictly ascending order; more generally, when the identifiers are all finite
  numbers or all strings, the values are the identifiers in strictly ascending order of the
  program's \<open><\<close>. For the heights 1080, 240, 720 the values are 240, 720,
  1080, \<open>auto\<close>, and for no level at all the list is the entry for Auto alone.
\<close>

theorem levelItems_sorted_auto_last:
  "(\<exists>reals. levelItems E opts loc levels = Inr (reals @ [auto_item loc]) \<and>
      list_all is_real reals \<and> \<not> is_real (auto_item loc) \<and>
      entry_val (auto_item loc) = Str ''auto'') \<and>
   (list_all (\<lambda>l. is_finite_number (getIdentifierFromLevel E opts l False)) levels \<longrightarrow>
      (\<exists>reals rs.
         levelItems E opts loc levels = Inr (reals @ [auto_item loc]) \<and>
         map entry_val reals = map (\<lambda>r. Num (Fin r)) rs \<and>
         sorted_wrt (<) rs \<and>
         set rs = (\<lambda>l. the_number (getIdentifierFromLevel E opts l False)) ` set levels)) \<and>
   (comparable (map (\<lambda>l. getIdentifierFromLevel E opts l False) levels) \<longrightarrow>
      (\<exists>reals.
         levelItems E opts loc levels = Inr (reals @ [auto_item loc]) \<and>
         sorted_wrt (js_lt E) (map entry_val reals) \<and>
         set (map entry_val reals) =
           set (map (\<lambda>l. getIdentifierFromLevel E opts l False) levels))) \<and>
   levelItems E defaults loc (map (level_of ''height'') [1080, 240, 720]) =
     Inr [MenuItem \<lparr>label = Str ''240p'', val = Num (Fin 240), selected = Undefined\<rparr>,
          MenuItem \<lparr>label = Str ''720p'', val = Num (Fin 720), selected = Undefined\<rparr>,
          MenuItem \<lparr>label = Str ''1080p'', val = Num (Fin 1080), selected = Undefined\<rparr>,
          auto_item loc] \<and>
   levelItems E opts loc [] = Inr [auto_item loc]"
proof (intro conjI impI)
  show "\<exists>reals. levelItems E opts loc levels = Inr (reals @ [auto_item loc]) \<and>
      list_all is_real reals \<and> \<not> is_real (auto_item loc) \<and>
      entry_val (auto_item loc) = Str ''auto''"
    using levelItems_real [of E opts loc levels]
    by (simp add: auto_item_def getQualityMenuItem_def)
next
  assume "list_all (\<lambda>l. is_finite_number (getIdentifierFromLevel E opts l False)) levels"
  then show "\<exists>reals rs.
         levelItems E opts loc levels = Inr (reals @ [auto_item loc]) \<and>
         map entry_val reals = map (\<lambda>r. Num (Fin r)) rs \<and>
         sorted_wrt (<) rs \<and>
         set rs = (\<lambda>l. the_number (getIdentifierFromLevel E opts l False)) ` set levels"
    by (rule levelItems_numbers)
next
  assume "comparable (map (\<lambda>l. getIdentifierFromLevel E opts l False) levels)"
  then show "\<exists>reals.
         levelItems E opts loc levels = Inr (reals @ [auto_item loc]) \<and>
         sorted_wrt (js_lt E) (map entry_val reals) \<and>
         set (map entry_val reals) =
           set (map (\<lambda>l. getIdentifierFromLevel E opts l False) levels)"
    by (rule levelItems_comparable)
next
  show "levelItems E defaults loc (map (level_of ''height'') [1080, 240, 720]) =
     Inr [MenuItem \<lparr>label = Str ''240p'', val = Num (Fin 240), selected = Undefined\<rparr>,
          MenuItem \<lparr>label = Str ''720p'', val = Num (Fin 720), selected = Undefined\<rparr>,
          MenuItem \<lparr>label = Str ''1080p'', val = Num (Fin 1080), selected = Undefined\<rparr>,
          auto_item loc]"
    by code_simp
next
  show "levelItems E opts loc [] = Inr [auto_item loc]"
    by (simp add: levelItems_def)
qed

theorem levelItems_sorted_auto_last_witness:
  "list_all (\<lambda>l. is_finite_number (getIdentifierFromLevel sample_engine defaults l False))
     (map (level_of ''height'') [1080, 240, 720]) \<and>
   (\<exists>reals rs.
      levelItems sample_engine defaults untranslated (map (level_of ''height'') [1080, 240, 720]) =
        Inr (reals @ [auto_item untranslated]) \<and>
      map entry_val reals = map (\<lambda>r. Num (Fin r)) rs \<and>
      sorted_wrt (<) rs \<and>
      set rs = {1080, 240, 720}) \<and>
   comparable (map (\<lambda>l. getIdentifierFromLevel sample_engine defaults l False)
     (map (level_of ''height'') [1080, 240, 720])) \<and>
   (\<exists>reals.
      levelItems sample_engine defaults untranslated (map (level_of ''height'') [1080, 240, 720]) =
        Inr (reals @ [auto_item untranslated]) \<and>
      sorted_wrt (js_lt sample_engine) (map entry_val reals))"
proof -
  have h: "list_all (\<lambda>l. is_finite_number (getIdentifierFromLevel sample_engine defaults l False))
     (map (level_of ''height'') [1080, 240, 720])"
    by code_simp
  have i: "(\<lambda>l. the_number (getIdentifierFromLevel sample_engine defaults l False)) `
      set (map (level_of ''height'') [1080, 240, 720]) = {1080, 240, 720}"
    by (simp add: getIdentifierFromLevel_def defaults_def level_of_def property_def)
  note t = levelItems_sorted_auto_last
    [of sample_engine defaults untranslated "map (level_of ''height'') [1080, 240, 720]"]
  have e: "\<exists>reals rs.
      levelItems sample_engine defaults untranslated (map (level_of ''height'') [1080, 240, 720]) =
        Inr (reals @ [auto_item untranslated]) \<and>
      map entry_val reals = map (\<lambda>r. Num (Fin r)) rs \<and>
      sorted_wrt (<) rs \<and>
      set rs = (\<lambda>l. the_number (getIdentifierFromLevel sample_engine defaults l False)) `
        set (map (level_of ''height'') [1080, 240, 720])"
    by (rule mp [OF t [THEN conjunct2, THEN conjunct1] h])
  have k: "comparable (map (\<lambda>l. getIdentifierFromLevel sample_engine defaults l False)
     (map (level_of ''height'') [1080, 240, 720]))"
    by code_simp
  from mp [OF t [THEN conjunct2, THEN conjunct2, THEN conjunct1] k]
  have g: "\<exists>reals.
      levelItems sample_engine defaults untranslated (map (level_of ''height'') [1080, 240, 720]) =
        Inr (reals @ [auto_item untranslated]) \<and>
      sorted_wrt (js_lt sample_engine) (map entry_val reals)"
    by blast
  from e have e': "\<exists>reals rs.
      levelItems sample_engine defaults untranslated (map (level_of ''height'') [1080, 240, 720]) =
        Inr (reals @ [auto_item untranslated]) \<and>
      map entry_val reals = map (\<lambda>r. Num (Fin r)) rs \<and>
      sorted_wrt (<) rs \<and>
      set rs = {1080, 240, 720}"
    unfolding i .
  from h e' k g show ?thesis by (intro conjI)
qed

text \<open>
  A level whose identifier is \<open>undefined\<close> is not put in order. A rendition without a height
  (audio only) has the identifier \<open>undefined\<close>; the comparison function answers 0 for it
  against any number, so 720 stays in front of 360.
\<close>

theorem levelItems_unsorted_counterexample:
  "levelItems sample_engine defaults untranslated
     [level_of ''height'' 720, level_of ''bitrate'' 64000, level_of ''height'' 360] =
   Inr [MenuItem \<lparr>label = Str ''720p'', val = Num (Fin 720), selected = Undefined\<rparr>,
        MenuItem \<lparr>label = Str ''undefinedp'', val = Undefined, selected = Undefined\<rparr>,
        MenuItem \<lparr>label = Str ''360p'', val = Num (Fin 360), selected = Undefined\<rparr>,
        MenuItem \<lparr>label = Str ''Auto'', val = Str ''auto'', selected = Bool True\<rparr>]"
  by code_simp

section \<open>Deduplication\<close>

lemma kept_values_first_occurrences:
  "Num NaN \<notin> set xs \<Longrightarrow> kept_values seen xs = first_occurrences seen xs"
proof (induction seen xs rule: first_occurrences.induct)
  case (1 seen)
  show ?case by simp
next
  case (2 seen x xs)
  from "2.prems" have "x \<noteq> Num NaN" by auto
  then have "list_ex (\<lambda>s. strict_eq s x) seen = (x \<in> set seen)"
    by (auto simp: list_ex_iff strict_eq_def)
  with 2 show ?case by simp
qed

lemma levelItems_no_strict_eq:
  "\<exists>reals.
     levelItems E opts loc levels = Inr (reals @ [auto_item loc]) \<and>
     sorted_wrt (\<lambda>a b. \<not> strict_eq a b) (map entry_val reals)"
proof -
  from levelItems_shape [of E opts levels loc] obtain collected reals where
    s: "map entry_val collected =
          kept_values [] (map (\<lambda>l. getIdentifierFromLevel E opts l False) levels)"
       "mset reals = mset collected"
       "levelItems E opts loc levels = Inr (reals @ [auto_item loc])"
    by blast
  have "distinct (filter (\<lambda>v. v \<noteq> Num NaN) (map entry_val collected))"
    unfolding s(1) no_strict_eq_distinct [symmetric] by (rule kept_values_no_equal)
  moreover have "mset (filter (\<lambda>v. v \<noteq> Num NaN) (map entry_val reals)) =
      mset (filter (\<lambda>v. v \<noteq> Num NaN) (map entry_val collected))"
    using s(2) by (metis mset_filter mset_map)
  ultimately have "distinct (filter (\<lambda>v. v \<noteq> Num NaN) (map entry_val reals))"
    by (metis mset_eq_imp_distinct_iff)
  then have "sorted_wrt (\<lambda>a b. \<not> strict_eq a b) (map entry_val reals)"
    by (simp add: no_strict_eq_distinct)
  with s(3) show ?thesis by blast
qed

lemma levelItems_distinct:
  assumes "list_all (\<lambda>l. getIdentifierFromLevel E opts l False \<noteq> Num NaN) levels"
  shows "\<exists>collected reals.
      collect_levels E opts levels [] = Inr collected \<and>
      map entry_val collected =
        first_occurrences [] (map (\<lambda>l. getIdentifierFromLevel E opts l False) levels) \<and>
      levelItems E opts loc levels = Inr (reals @ [auto_item loc]) \<and>
      mset reals = mset collected \<and>
      distinct (map entry_val reals)"
proof -
  let ?ids = "map (\<lambda>l. getIdentifierFromLevel E opts l False) levels"
  from levelItems_shape [of E opts levels loc] obtain collected reals where
    s: "collect_levels E opts levels [] = Inr collected"
       "map entry_val collected = kept_values [] ?ids"
       "mset reals = mset collected"
       "levelItems E opts loc levels = Inr (reals @ [auto_item loc])"
    by blast
  have nonan: "Num NaN \<notin> set ?ids"
    using assms by (auto simp: list_all_iff)
  then have f: "kept_values [] ?ids = first_occurrences [] ?ids"
    by (rule kept_values_first_occurrences)
  have "set (kept_values [] ?ids) \<subseteq> set ?ids" by (rule kept_values_set)
  with nonan have "Num NaN \<notin> set (map entry_val collected)"
    unfolding s(2) by blast
  then have id: "filter (\<lambda>v. v \<noteq> Num NaN) (map entry_val collected) = map entry_val collected"
    by (auto simp: filter_id_conv simp del: set_map)
  have "distinct (filter (\<lambda>v. v \<noteq> Num NaN) (map entry_val collected))"
    unfolding s(2) no_strict_eq_distinct [symmetric] by (rule kept_values_no_equal)
  then have "distinct (map entry_val collected)" unfolding id .
  moreover have "mset (map entry_val reals) = mset (map entry_val collected)"
    using s(3) by simp
  ultimately have "distinct (map entry_val reals)"
    by (metis mset_eq_imp_distinct_iff)
  with s f show ?thesis by auto
qed

text \<open>
  C2 (as amended). For every collection of levels none of whose identifiers is \<open>NaN\<close>, the
  collection loop keeps exactly the first occurrence of each identifier, in the order of the
  collection, and skips a level whose identifier has been seen; the real entries of the menu
  list are the kept entries rearranged, and no two of them have equal values. For every
  collection whatever, no two real entries have values that are \<open>===\<close>. For the heights 720,
  720, 1080 the list has the two real entries 720 and 1080, in that order, in front of Auto.
\<close>

theorem levelItems_no_equal_values:
  "(list_all (\<lambda>l. getIdentifierFromLevel E opts l False \<noteq> Num NaN) levels \<longrightarrow>
      (\<exists>collected reals.
         collect_levels E opts levels [] = Inr collected \<and>
         map entry_val collected =
           first_occurrences [] (map (\<lambda>l. getIdentifierFromLevel E opts l False) levels) \<and>
         levelItems E opts loc levels = Inr (reals @ [auto_item loc]) \<and>
         mset reals = mset collected \<and>
         distinct (map entry_val reals))) \<and>
   (\<exists>reals.
      levelItems E opts loc levels = Inr (reals @ [auto_item loc]) \<and>
      sorted_wrt (\<lambda>a b. \<not> strict_eq a b) (map entry_val reals)) \<and>
   levelItems E defaults loc (map (level_of ''height'') [720, 720, 1080]) =
     Inr [MenuItem \<lparr>label = Str ''720p'', val = Num (Fin 720), selected = Undefined\<rparr>,
          MenuItem \<lparr>label = Str ''1080p'', val = Num (Fin 1080), selected = Undefined\<rparr>,
          auto_item loc]"
proof (intro conjI impI)
  assume "list_all (\<lambda>l. getIdentifierFromLevel E opts l False \<noteq> Num NaN) levels"
  then show "\<exists>collected reals.
         collect_levels E opts levels [] = Inr collected \<and>
         map entry_val collected =
           first_occurrences [] (map (\<lambda>l. getIdentifierFromLevel E opts l False) levels) \<and>
         levelItems E opts loc levels = Inr (reals @ [auto_item loc]) \<and>
         mset reals = mset collected \<and>
         distinct (map entry_val reals)"
    by (rule levelItems_distinct)
next
  show "\<exists>reals.
      levelItems E opts loc levels = Inr (reals @ [auto_item loc]) \<and>
      sorted_wrt (\<lambda>a b. \<not> strict_eq a b) (map entry_val reals)"
    by (rule levelItems_no_strict_eq)
next
  show "levelItems E defaults loc (map (level_of ''height'') [720, 720, 1080]) =
     Inr [MenuItem \<lparr>label = Str ''720p'', val = Num (Fin 720), selected = Undefined\<rparr>,
          MenuItem \<lparr>label = Str ''1080p'', val = Num (Fin 1080), selected = Undefined\<rparr>,
          auto_item loc]"
    by code_simp
qed

theorem levelItems_no_equal_values_witness:
  "list_all (\<lambda>l. getIdentifierFromLevel sample_engine defaults l False \<noteq> Num NaN)
     (map (level_of ''height'') [720, 720, 1080]) \<and>
   (\<exists>reals.
     levelItems sample_engine defaults untranslated (map (level_of ''height'') [720, 720, 1080]) =
       Inr (reals @ [auto_item untranslated]) \<and>
     distinct (map entry_val reals))"
proof -
  have h: "list_all (\<lambda>l. getIdentifierFromLevel sample_engine defaults l False \<noteq> Num NaN)
     (map (level_of ''height'') [720, 720, 1080])"
    by code_simp
  note t = levelItems_no_equal_values
    [of sample_engine defaults "map (level_of ''height'') [720, 720, 1080]" untranslated]
  from mp [OF t [THEN conjunct1] h] have "\<exists>reals.
     levelItems sample_engine defaults untranslated (map (level_of ''height'') [720, 720, 1080]) =
       Inr (reals @ [auto_item untranslated]) \<and>
     distinct (map entry_val reals)"
    by blast
  with h show ?thesis by (rule conjI)
qed

text \<open>
  \<open>NaN\<close> is \<open>===\<close> to nothing, itself included: of two levels whose identifier is \<open>NaN\<close>
  the second is not skipped, and the list has two real entries with the same value.
\<close>

theorem levelItems_NaN_twice_counterexample:
  "levelItems sample_engine defaults untranslated
     [[''height'' \<mapsto> Num NaN], [''height'' \<mapsto> Num NaN]] =
   Inr [MenuItem \<lparr>label = Str ''NaNp'', val = Num NaN, selected = Undefined\<rparr>,
        MenuItem \<lparr>label = Str ''NaNp'', val = Num NaN, selected = Undefined\<rparr>,
        MenuItem \<lparr>label = Str ''Auto'', val = Str ''auto'', selected = Bool True\<rparr>]"
  by code_simp

section \<open>Labels for bitrates\<close>

text \<open>
  C4 (as amended). With \<open>identifyBy = 'bitrate'\<close> the formatted identifier of a level of
  bitrate 2500000 is \<open>2Mbps\<close>, of 999 it is \<open>999bps\<close>, and of 1000000000 it is
  \<open>1000Mbps\<close>: the loop stops at 1000, which is not greater than \<open>1e3\<close>.
\<close>

theorem bitrate_examples:
  "getIdentifierFromLevel E by_bitrate (level_of ''bitrate'' 2500000) True = Str ''2Mbps'' \<and>
   getIdentifierFromLevel E by_bitrate (level_of ''bitrate'' 999) True = Str ''999bps'' \<and>
   getIdentifierFromLevel E by_bitrate (level_of ''bitrate'' 1000000000) True = Str ''1000Mbps''"
  by code_simp

theorem bitrate_examples_witness:
  "getIdentifierFromLevel sample_engine by_bitrate (level_of ''bitrate'' 1000000000) True =
     Str ''1000Mbps''"
  using bitrate_examples [of sample_engine] by simp

text \<open>The label of 1000000000 is not \<open>1Gbps\<close>.\<close>

theorem bitrate_1Gbps_counterexample:
  "getIdentifierFromLevel sample_engine by_bitrate (level_of ''bitrate'' 1000000000) True \<noteq>
     Str ''1Gbps''"
  by code_simp

section \<open>The bitrate label against its description\<close>

lemma floor_scale_bound: "n \<le> 4 \<Longrightarrow> snd (floor_scale v n) \<le> 4"
proof (induction v n rule: floor_scale.induct)
  case (1 v n)
  show ?case
  proof (cases "1000 < \<lfloor>v\<rfloor> \<and> n < 4")
    case True
    with 1 show ?thesis by (simp add: floor_scale.simps [of v n])
  next
    case False
    then have "floor_scale v n = (v, n)"
      by (subst floor_scale.simps) (simp only: if_False)
    with "1.prems" show ?thesis by simp
  qed
qed

lemma scale_loop_floor_scale:
  "n \<le> 4 \<Longrightarrow> v < 1001 * 1000 ^ (4 - n) \<Longrightarrow>
   scale_loop E (Num (Fin v)) n = (Num (Fin (fst (floor_scale v n))), snd (floor_scale v n))"
proof (induction v n rule: floor_scale.induct)
  case (1 v n)
  have len: "length mags = 5" by (simp add: mags_def)
  show ?case
  proof (cases "1000 < \<lfloor>v\<rfloor>")
    case False
    then have "\<not> (1000 :: rat) < of_int \<lfloor>v\<rfloor>" by linarith
    with False show ?thesis
      by (simp add: floor_scale.simps [of v n] scale_loop.simps [of E "Num (Fin v)" n])
  next
    case True
    then have big: "(1000 :: rat) < of_int \<lfloor>v\<rfloor>" by linarith
    have "n < 4"
    proof (rule ccontr)
      assume "\<not> n < 4"
      with "1.prems" have "v < 1001" by simp
      then have "\<lfloor>v\<rfloor> < 1001" by linarith
      with True show False by simp
    qed
    then have pow: "(1000::rat) ^ (4 - n) = 1000 * 1000 ^ (4 - (n + 1))"
      by (metis Suc_diff_Suc Suc_eq_plus1 diff_Suc_eq_diff_pred power_Suc diff_Suc_1 diff_commute)
    have "v / 1000 < 1001 * 1000 ^ (4 - (n + 1))"
      using "1.prems"(2) unfolding pow by simp
    with "1.IH" True \<open>n < 4\<close> have
      "scale_loop E (Num (Fin (v / 1000))) (n + 1) =
         (Num (Fin (fst (floor_scale (v / 1000) (n + 1)))), snd (floor_scale (v / 1000) (n + 1)))"
      by simp
    with True big \<open>n < 4\<close> len show ?thesis
      by (simp add: floor_scale.simps [of v n] scale_loop.simps [of E "Num (Fin v)" n])
  qed
qed

lemma format_bitrate_floor_format:
  assumes "r < 1001 * 1000 ^ 4"
  shows "format_bitrate E (Num (Fin r)) = floor_format_bitrate E r"
proof -
  have s: "scale_loop E (Num (Fin r)) 0 = (Num (Fin (fst (floor_scale r 0))), snd (floor_scale r 0))"
    using assms scale_loop_floor_scale [of 0 r E] by simp
  have b: "snd (floor_scale r 0) \<le> 4" by (rule floor_scale_bound) simp
  then have m: "mags_at (snd (floor_scale r 0)) = Str (mags ! snd (floor_scale r 0))"
    by (simp add: mags_at_def mags_def)
  show ?thesis
    by (simp add: format_bitrate_def floor_format_bitrate_def s m js_plus_def split: prod.splits)
qed

text \<open>
  C3 (as amended). With \<open>identifyBy = 'bitrate'\<close>, for every level whose identifier is a
  finite number below \<open>1001 * 1000^4\<close>, the formatted identifier is obtained by dividing
  the value by 1000 while the floor of the value exceeds 1000 (which takes at most 4
  scalings), and is the floor of the scaled value, then the suffix among \<open>''\<close>, \<open>k\<close>, \<open>M\<close>,
  \<open>G\<close>, \<open>T\<close> that the number of scalings selects, then \<open>bps\<close>. A value whose floor is
  at most 1000 is not scaled and gets no suffix.
\<close>

theorem bitrate_label_reference:
  assumes "identifyBy opts = ''bitrate''"
    and "getIdentifierFromLevel E opts l False = Num (Fin r)"
    and "r < 1001 * 1000 ^ 4"
  shows "getIdentifierFromLevel E opts l True = floor_format_bitrate E r \<and>
    (\<lfloor>r\<rfloor> \<le> 1000 \<longrightarrow>
       getIdentifierFromLevel E opts l True = Str (number_to_string E (Fin (of_int \<lfloor>r\<rfloor>)) @ ''bps''))"
proof -
  let ?v = "if truthy (property l (identifyBy opts)) then property l (identifyBy opts)
            else property l ''height''"
  from assms(2) have v: "?v = Num (Fin r)"
    by (simp add: getIdentifierFromLevel_def Let_def)
  have "getIdentifierFromLevel E opts l True = format_bitrate E ?v"
    using assms(1) by (simp add: getIdentifierFromLevel_def Let_def)
  also have "\<dots> = floor_format_bitrate E r"
    unfolding v using assms(3) by (rule format_bitrate_floor_format)
  finally have main: "getIdentifierFromLevel E opts l True = floor_format_bitrate E r" .
  have "\<lfloor>r\<rfloor> \<le> 1000 \<longrightarrow>
    floor_format_bitrate E r = Str (number_to_string E (Fin (of_int \<lfloor>r\<rfloor>)) @ ''bps'')"
    by (simp add: floor_format_bitrate_def floor_scale.simps [of r 0] mags_def)
  with main show ?thesis by simp
qed

theorem bitrate_label_reference_witness:
  "identifyBy by_bitrate = ''bitrate'' \<and>
   getIdentifierFromLevel sample_engine by_bitrate (level_of ''bitrate'' 2500000) False =
     Num (Fin 2500000) \<and>
   (2500000 :: rat) < 1001 * 1000 ^ 4 \<and>
   getIdentifierFromLevel sample_engine by_bitrate (level_of ''bitrate'' 2500000) True =
     floor_format_bitrate sample_engine 2500000 \<and>
   floor_format_bitrate sample_engine 2500000 = Str ''2Mbps''"
proof -
  have a: "identifyBy by_bitrate = ''bitrate''" by (simp add: by_bitrate_def)
  have b: "getIdentifierFromLevel sample_engine by_bitrate (level_of ''bitrate'' 2500000) False =
     Num (Fin 2500000)" by code_simp
  have c: "(2500000 :: rat) < 1001 * 1000 ^ 4" by simp
  have d: "floor_format_bitrate sample_engine 2500000 = Str ''2Mbps''" by code_simp
  from bitrate_label_reference [OF a b c] a b c d show ?thesis by blast
qed

text \<open>
  The loop runs while \<open>mag < mags.length\<close>, so a value of \<open>1001 * 1000^4\<close> or more is
  scaled a fifth time; \<open>mags[5]\<close> is \<open>undefined\<close>, and the sum of a number and
  \<open>undefined\<close> is \<open>NaN\<close>.
\<close>

lemma bitrate_label_five_scalings:
  "getIdentifierFromLevel E by_bitrate (level_of ''bitrate'' 2000000000000000000) True = Str ''NaNbps''"
  by code_simp

text \<open>
  The description tests the value, the loop tests its floor: 1000500 becomes 1000.5 after one
  scaling, where the loop stops (\<open>1000kbps\<close>) and the description goes on (\<open>1Mbps\<close>).
\<close>

theorem bitrate_reference_counterexample:
  "getIdentifierFromLevel sample_engine by_bitrate (level_of ''bitrate'' 1000500) True =
     Str ''1000kbps'' \<and>
   spec_format_bitrate sample_engine 1000500 = Str ''1Mbps''"
  by code_simp

section \<open>Selecting a quality\<close>

lemma enable_levels_map:
  "enable_levels E opts identifier levels =
     map (\<lambda>q. q(''enabled'' \<mapsto>
            Bool (strict_eq (getIdentifierFromLevel E opts q False) identifier
                  \<or> identifier = Str ''auto''))) levels"
  by (induction levels) (auto simp: strict_eq_def)

lemma setQuality_levels:
  "qualityLevels (player pl) = Some levels \<Longrightarrow>
   qualityLevels (player (fst (setQuality E opts pl identifier))) =
     Some (enable_levels E opts identifier levels)"
  by (simp add: setQuality_def Let_def split: option.splits)

lemma setQuality_flags:
  "qualityLevels (player pl) = Some levels \<Longrightarrow>
   enabled_flags (fst (setQuality E opts pl identifier)) =
     map (\<lambda>q. Bool (strict_eq (getIdentifierFromLevel E opts q False) identifier
                     \<or> identifier = Str ''auto'')) levels"
  by (simp add: enabled_flags_def setQuality_levels enable_levels_map property_def comp_def)

text \<open>
  C5. For every collection of levels of the host and every chosen identifier, after
  \<open>setQuality\<close> the \<open>enabled\<close> flag of each level is \<open>true\<close> exactly when the identifier
  derived from that level is strictly equal to the chosen one or the chosen one is the string
  \<open>auto\<close>, and \<open>false\<close> otherwise. For the heights 480, 720, 1080, choosing 720 gives the
  flags false, true, false and choosing \<open>auto\<close> gives true, true, true.
\<close>

theorem setQuality_enables_exactly_matching:
  "(qualityLevels (player pl) = Some levels \<longrightarrow>
      enabled_flags (fst (setQuality E opts pl identifier)) =
        map (\<lambda>q. Bool (strict_eq (getIdentifierFromLevel E opts q False) identifier
                        \<or> identifier = Str ''auto'')) levels) \<and>
   enabled_flags (fst (setQuality E defaults
       (sample_plugin (map (level_of ''height'') [480, 720, 1080])) (Num (Fin 720)))) =
     [Bool False, Bool True, Bool False] \<and>
   enabled_flags (fst (setQuality E defaults
       (sample_plugin (map (level_of ''height'') [480, 720, 1080])) (Str ''auto''))) =
     [Bool True, Bool True, Bool True]"
proof (intro conjI impI)
  assume "qualityLevels (player pl) = Some levels"
  then show "enabled_flags (fst (setQuality E opts pl identifier)) =
        map (\<lambda>q. Bool (strict_eq (getIdentifierFromLevel E opts q False) identifier
                        \<or> identifier = Str ''auto'')) levels"
    by (rule setQuality_flags)
next
  show "enabled_flags (fst (setQuality E defaults
       (sample_plugin (map (level_of ''height'') [480, 720, 1080])) (Num (Fin 720)))) =
     [Bool False, Bool True, Bool False]"
    by code_simp
next
  show "enabled_flags (fst (setQuality E defaults
       (sample_plugin (map (level_of ''height'') [480, 720, 1080])) (Str ''auto''))) =
     [Bool True, Bool True, Bool True]"
    by code_simp
qed

theorem setQuality_enables_exactly_matching_witness:
  "qualityLevels (player (sample_plugin (map (level_of ''height'') [480, 720, 1080]))) =
     Some (map (level_of ''height'') [480, 720, 1080]) \<and>
   enabled_flags (fst (setQuality sample_engine defaults
       (sample_plugin (map (level_of ''height'') [480, 720, 1080])) (Num (Fin 1080)))) =
     map (\<lambda>q. Bool (strict_eq (getIdentifierFromLevel sample_engine defaults q False) (Num (Fin 1080))
                     \<or> Num (Fin 1080) = Str ''auto'')) (map (level_of ''height'') [480, 720, 1080])"
proof -
  have h: "qualityLevels (player (sample_plugin (map (level_of ''height'') [480, 720, 1080]))) =
     Some (map (level_of ''height'') [480, 720, 1080])"
    by (simp add: sample_plugin_def constructor_def getHls_def sample_player_def Let_def)
  note t = setQuality_enables_exactly_matching
    [of "sample_plugin (map (level_of ''height'') [480, 720, 1080])"
        "map (level_of ''height'') [480, 720, 1080]" sample_engine defaults "Num (Fin 1080)"]
  show ?thesis
    using h mp [OF t [THEN conjunct1] h] by (rule conjI)
qed

text \<open>
  On an instance that has its button, for every chosen identifier that is not \<open>auto\<close> and
  is strictly equal to the identifier of no level of the collection, \<open>setQuality\<close> completes
  normally, and after the call the \<open>enabled\<close> flag of every level is \<open>false\<close>.
\<close>

lemma setQuality_no_match_disables_all:
  assumes "qualityLevels (player pl) = Some levels"
    and "qualityButton pl = Some b"
    and "list_all (\<lambda>q. \<not> strict_eq (getIdentifierFromLevel E opts q False) identifier) levels"
    and "identifier \<noteq> Str ''auto''"
  shows "snd (setQuality E opts pl identifier) = None \<and>
    enabled_flags (fst (setQuality E opts pl identifier)) = replicate (length levels) (Bool False)"
proof
  show "snd (setQuality E opts pl identifier) = None"
    using assms(1,2) by (simp add: setQuality_def Let_def)
next
  have "map (\<lambda>q. Bool (strict_eq (getIdentifierFromLevel E opts q False) identifier
                     \<or> identifier = Str ''auto'')) levels = map (\<lambda>q. Bool False) levels"
    using assms(3,4) by (simp add: list_all_iff)
  then show "enabled_flags (fst (setQuality E opts pl identifier)) = replicate (length levels) (Bool False)"
    by (simp add: setQuality_flags [OF assms(1)] map_replicate_const)
qed

text \<open>
  C9. The constructor builds an instance in any case and gives it a button only when the
  player has quality levels and the HLS tech. \<open>onAddQualityLevel\<close> tests
  \<open>this._qualityButton\<close> before it uses it; \<open>setQuality\<close> does not. On an instance without
  a button \<open>setQuality\<close> assigns the flags and then throws a \<open>TypeError\<close> at
  \<open>unpressButton\<close>, whatever the identifier: for the heights 480, 720, 1080 and the
  identifier 999, which matches no level, every flag is \<open>false\<close> and the call has thrown.
\<close>

theorem setQuality_throws_without_button:
  assumes "qualityLevels (player pl) = Some levels"
    and "qualityButton pl = None"
  shows "snd (setQuality E opts pl chosen) = Some TypeError \<and>
    enabled_flags (fst (setQuality E opts pl chosen)) =
      map (\<lambda>q. Bool (strict_eq (getIdentifierFromLevel E opts q False) chosen
                      \<or> chosen = Str ''auto'')) levels"
proof
  show "snd (setQuality E opts pl chosen) = Some TypeError"
    using assms by (simp add: setQuality_def Let_def)
next
  show "enabled_flags (fst (setQuality E opts pl chosen)) =
      map (\<lambda>q. Bool (strict_eq (getIdentifierFromLevel E opts q False) chosen
                      \<or> chosen = Str ''auto'')) levels"
    using assms(1) by (rule setQuality_flags)
qed

theorem setQuality_throws_without_button_witness:
  "snd (setQuality sample_engine defaults
      (inert_plugin (map (level_of ''height'') [480, 720, 1080])) (Num (Fin 999))) = Some TypeError \<and>
   enabled_flags (fst (setQuality sample_engine defaults
      (inert_plugin (map (level_of ''height'') [480, 720, 1080])) (Num (Fin 999)))) =
     [Bool False, Bool False, Bool False]"
proof -
  have a: "qualityLevels (player (inert_plugin (map (level_of ''height'') [480, 720, 1080]))) =
     Some (map (level_of ''height'') [480, 720, 1080])"
    by (simp add: inert_plugin_def constructor_def getHls_def sample_player_def Let_def)
  have b: "qualityButton (inert_plugin (map (level_of ''height'') [480, 720, 1080])) = None"
    by (simp add: inert_plugin_def constructor_def getHls_def sample_player_def Let_def)
  have c: "map (\<lambda>q. Bool (strict_eq (getIdentifierFromLevel sample_engine defaults q False) (Num (Fin 999))
                      \<or> Num (Fin 999) = Str ''auto'')) (map (level_of ''height'') [480, 720, 1080]) =
     [Bool False, Bool False, Bool False]"
    by code_simp
  from setQuality_throws_without_button [OF a b, of sample_engine defaults "Num (Fin 999)"]
  show ?thesis unfolding c .
qed

section \<open>Deriving the identifier\<close>

text \<open>
  C6. Without formatting, \<open>getIdentifierFromLevel\<close> returns the value of the configured
  property of the level when that value is truthy, and the value of the \<open>height\<close> property
  otherwise: when the configured property is absent, and also when it is there with a falsy
  value such as 0. The result depends on the level and the option only, not on the engine.
\<close>

theorem getIdentifierFromLevel_fallback:
  "(truthy (property l (identifyBy opts)) \<longrightarrow>
      getIdentifierFromLevel E opts l False = property l (identifyBy opts)) \<and>
   (\<not> truthy (property l (identifyBy opts)) \<longrightarrow>
      getIdentifierFromLevel E opts l False = property l ''height'') \<and>
   (l (identifyBy opts) = None \<longrightarrow>
      getIdentifierFromLevel E opts l False = property l ''height'') \<and>
   (l (identifyBy opts) = Some (Num (Fin 0)) \<longrightarrow>
      getIdentifierFromLevel E opts l False = property l ''height'') \<and>
   getIdentifierFromLevel E opts l False = getIdentifierFromLevel E' opts l False"
  by (simp add: getIdentifierFromLevel_def property_def Let_def)

theorem getIdentifierFromLevel_fallback_witness:
  "truthy (property [''bitrate'' \<mapsto> Num (Fin 800000), ''height'' \<mapsto> Num (Fin 720)] (identifyBy by_bitrate)) \<and>
   getIdentifierFromLevel sample_engine by_bitrate
     [''bitrate'' \<mapsto> Num (Fin 800000), ''height'' \<mapsto> Num (Fin 720)] False = Num (Fin 800000) \<and>
   [''bitrate'' \<mapsto> Num (Fin 0), ''height'' \<mapsto> Num (Fin 720)] (identifyBy by_bitrate) = Some (Num (Fin 0)) \<and>
   getIdentifierFromLevel sample_engine by_bitrate
     [''bitrate'' \<mapsto> Num (Fin 0), ''height'' \<mapsto> Num (Fin 720)] False = Num (Fin 720) \<and>
   [''height'' \<mapsto> Num (Fin 720)] (identifyBy by_bitrate) = None \<and>
   getIdentifierFromLevel sample_engine by_bitrate [''height'' \<mapsto> Num (Fin 720)] False = Num (Fin 720)"
proof -
  have a: "truthy (property [''bitrate'' \<mapsto> Num (Fin 800000), ''height'' \<mapsto> Num (Fin 720)] (identifyBy by_bitrate))"
    by (simp add: property_def by_bitrate_def)
  have b: "[''bitrate'' \<mapsto> Num (Fin 0), ''height'' \<mapsto> Num (Fin 720)] (identifyBy by_bitrate) = Some (Num (Fin 0))"
    by (simp add: by_bitrate_def)
  have c: "[''height'' \<mapsto> Num (Fin 720)] (identifyBy by_bitrate) = None"
    by (simp add: by_bitrate_def)
  note t1 = getIdentifierFromLevel_fallback
    [of "[''bitrate'' \<mapsto> Num (Fin 800000), ''height'' \<mapsto> Num (Fin 720)]" by_bitrate sample_engine sample_engine]
  note t2 = getIdentifierFromLevel_fallback
    [of "[''bitrate'' \<mapsto> Num (Fin 0), ''height'' \<mapsto> Num (Fin 720)]" by_bitrate sample_engine sample_engine]
  note t3 = getIdentifierFromLevel_fallback
    [of "[''height'' \<mapsto> Num (Fin 720)]" by_bitrate sample_engine sample_engine]
  have r1: "getIdentifierFromLevel sample_engine by_bitrate
     [''bitrate'' \<mapsto> Num (Fin 800000), ''height'' \<mapsto> Num (Fin 720)] False = Num (Fin 800000)"
    using mp [OF t1 [THEN conjunct1] a] by (simp add: property_def by_bitrate_def)
  have r2: "getIdentifierFromLevel sample_engine by_bitrate
     [''bitrate'' \<mapsto> Num (Fin 0), ''height'' \<mapsto> Num (Fin 720)] False = Num (Fin 720)"
    using mp [OF t2 [THEN conjunct2, THEN conjunct2, THEN conjunct2, THEN conjunct1] b]
    by (simp add: property_def)
  have r3: "getIdentifierFromLevel sample_engine by_bitrate [''height'' \<mapsto> Num (Fin 720)] False = Num (Fin 720)"
    using mp [OF t3 [THEN conjunct2, THEN conjunct2, THEN conjunct1] c]
    by (simp add: property_def)
  from a r1 b r2 c r3 show ?thesis by (intro conjI)
qed

section \<open>Repeating the reconciliation\<close>

lemma levelItems_total: "\<exists>items. levelItems E opts loc levels = Inr items"
  using levelItems_shape [of E opts levels loc] by blast

text \<open>
  C7. For every collection of levels and every configuration, \<open>onAddQualityLevel\<close> produces
  a menu list, which is a function of the collection and the configuration alone; it changes
  nothing of the player, and running it again on the instance it leaves gives that same
  instance, with the same list of items (labels, values and order).
\<close>

theorem onAddQualityLevel_idempotent:
  assumes "qualityLevels (player pl) = Some levels"
  shows "\<exists>items pl'.
     levelItems E opts (localize (player pl)) levels = Inr items \<and>
     onAddQualityLevel E opts pl = Inr pl' \<and>
     onAddQualityLevel E opts pl' = Inr pl' \<and>
     player pl' = player pl \<and>
     map_option createItems (qualityButton pl') = map_option (\<lambda>b. items) (qualityButton pl)"
proof -
  from levelItems_total obtain items where
    i: "levelItems E opts (localize (player pl)) levels = Inr items" by blast
  show ?thesis
  proof (cases "qualityButton pl")
    case None
    with assms i have "onAddQualityLevel E opts pl = Inr pl"
      by (simp add: onAddQualityLevel_def)
    with None i show ?thesis by auto
  next
    case (Some b)
    let ?pl' = "pl\<lparr>qualityButton := Some (b\<lparr>createItems := items\<rparr>)\<rparr>"
    from Some assms i have 1: "onAddQualityLevel E opts pl = Inr ?pl'"
      by (simp add: onAddQualityLevel_def)
    from assms i have 2: "onAddQualityLevel E opts ?pl' = Inr ?pl'"
      by (simp add: onAddQualityLevel_def)
    from 1 2 i Some show ?thesis by auto
  qed
qed

theorem onAddQualityLevel_idempotent_witness:
  "\<exists>pl'.
     onAddQualityLevel sample_engine defaults (sample_plugin (map (level_of ''height'') [1080, 240, 720])) = Inr pl' \<and>
     onAddQualityLevel sample_engine defaults pl' = Inr pl'"
proof -
  have h: "qualityLevels (player (sample_plugin (map (level_of ''height'') [1080, 240, 720]))) =
     Some (map (level_of ''height'') [1080, 240, 720])"
    by (simp add: sample_plugin_def constructor_def getHls_def sample_player_def Let_def)
  from onAddQualityLevel_idempotent [OF h, of sample_engine defaults] show ?thesis by blast
qed

section \<open>The comparison function on other values\<close>

text \<open>
  Whenever one of the two values given to the comparison function is not an object, the
  function throws nothing and answers \<open>-1\<close> (less than), whichever of the two it is; on two
  menu items it throws nothing and answers \<open>-1\<close>, \<open>1\<close> or \<open>0\<close> as the value of the first
  is less than, greater than, or neither, compared with the second.
\<close>

lemma comparator_non_objects:
  "(typeof current \<noteq> ''object'' \<or> typeof nxt \<noteq> ''object'' \<longrightarrow>
      comparator E current nxt = Inr (- 1)) \<and>
   comparator E (MenuItem c) (MenuItem n) =
     Inr (if js_lt E (val c) (val n) then - 1 else if js_gt E (val c) (val n) then 1 else 0)"
  by (simp add: comparator_def item_value_def)



section \<open>The defaults object\<close>

text \<open>
  C10. The constructor assigns the options it is given into the module's \<open>defaults\<close> object
  itself: after the call that object holds every option that was given, so it has changed
  whenever a given option differs from the default. A second construction that is given no
  options leaves the object as the first one left it and builds the instance that the options
  of the first call would give. The plugin function changes the object in the same way.
\<close>

theorem constructor_mutates_defaults:
  "fst (constructor d p given) = Object_assign d given \<and>
   (given_identifyBy given = Some s \<longrightarrow> identifyBy (fst (constructor d p given)) = s) \<and>
   (given_positionIndex given = Some i \<longrightarrow> positionIndex (fst (constructor d p given)) = i) \<and>
   fst (constructor (fst (constructor d p given)) p' no_options) = fst (constructor d p given) \<and>
   snd (constructor (fst (constructor d p given)) p' no_options) = snd (constructor d p' given) \<and>
   fst (hlsQualitySelector d p given) = fst (constructor d p given) \<and>
   (given_identifyBy given = Some s \<and> s \<noteq> identifyBy d \<longrightarrow> fst (constructor d p given) \<noteq> d) \<and>
   (given_positionIndex given = Some i \<and> i \<noteq> positionIndex d \<longrightarrow> fst (constructor d p given) \<noteq> d)"
proof -
  have c: "fst (constructor d p given) = Object_assign d given" for d p given
    by (simp add: constructor_def Let_def)
  have a: "given_identifyBy given = Some s \<longrightarrow> identifyBy (Object_assign d given) = s"
    by (simp add: Object_assign_def)
  have b: "given_positionIndex given = Some i \<longrightarrow> positionIndex (Object_assign d given) = i"
    by (simp add: Object_assign_def)
  have n: "Object_assign (Object_assign d given) no_options = Object_assign d given"
    by (simp add: Object_assign_def no_options_def)
  have i: "snd (constructor (Object_assign d given) p' no_options) = snd (constructor d p' given)"
    by (simp add: constructor_def Let_def n)
  have h: "fst (hlsQualitySelector d p given) = Object_assign d given"
    by (simp add: hlsQualitySelector_def c mergeOptions_def Object_assign_def)
  have x: "given_identifyBy given = Some s \<and> s \<noteq> identifyBy d \<longrightarrow> Object_assign d given \<noteq> d"
    using a by auto
  have y: "given_positionIndex given = Some i \<and> i \<noteq> positionIndex d \<longrightarrow> Object_assign d given \<noteq> d"
    using b by auto
  show ?thesis
    unfolding c h n using a b i x y by (intro conjI refl)
qed

theorem constructor_mutates_defaults_witness:
  "identifyBy (fst (constructor defaults (sample_player []) \<lparr>given_positionIndex = Some 0, given_identifyBy = Some ''bitrate''\<rparr>)) = ''bitrate'' \<and>
   positionIndex (fst (constructor defaults (sample_player []) \<lparr>given_positionIndex = Some 0, given_identifyBy = Some ''bitrate''\<rparr>)) = 0 \<and>
   identifyBy (fst (constructor
      (fst (constructor defaults (sample_player []) \<lparr>given_positionIndex = Some 0, given_identifyBy = Some ''bitrate''\<rparr>))
      (sample_player []) no_options)) = ''bitrate''"
proof -
  note t = constructor_mutates_defaults
    [of defaults "sample_player []" "\<lparr>given_positionIndex = Some 0, given_identifyBy = Some ''bitrate''\<rparr>"
        "''bitrate''" 0 "sample_player []"]
  have a: "identifyBy (fst (constructor defaults (sample_player [])
      \<lparr>given_positionIndex = Some 0, given_identifyBy = Some ''bitrate''\<rparr>)) = ''bitrate''"
    using t [THEN conjunct2, THEN conjunct1] by simp
  have b: "positionIndex (fst (constructor defaults (sample_player [])
      \<lparr>given_positionIndex = Some 0, given_identifyBy = Some ''bitrate''\<rparr>)) = 0"
    using t [THEN conjunct2, THEN conjunct2, THEN conjunct1] by simp
  have c: "fst (constructor
      (fst (constructor defaults (sample_player [])
         \<lparr>given_positionIndex = Some 0, given_identifyBy = Some ''bitrate''\<rparr>))
      (sample_player []) no_options) =
    fst (constructor defaults (sample_player [])
      \<lparr>given_positionIndex = Some 0, given_identifyBy = Some ''bitrate''\<rparr>)"
    by (rule t [THEN conjunct2, THEN conjunct2, THEN conjunct2, THEN conjunct1])
  show ?thesis unfolding c using a b a by (intro conjI)
qed

end
